theory Spec2Isabelle
  imports Main "HOL-Library.Word" "HOL-Library.Sublist" "HOL-Library.Multiset"
begin

section \<open>C strings and character arrays\<close>

text \<open>
  A C \<open>char\<close> is a byte and so is an Isabelle \<^typ>\<open>char\<close>: character arrays, file
  contents and path names are all values of type \<^typ>\<open>string\<close>. A C string is the part
  of an array before its first NUL byte. Memory allocation is taken to succeed except
  in \<open>cache_get_pending_pages\<close>, whose result depends on it, and a pointer argument is
  a value unless a function is said to take an \<open>option\<close>.
\<close>

abbreviation NUL :: char where
  "NUL \<equiv> CHR 0x00"

definition cstr :: "string \<Rightarrow> string" where
  "cstr s = takeWhile (\<lambda>c. c \<noteq> NUL) s"

definition strlen :: "string \<Rightarrow> nat" where
  "strlen s = length (cstr s)"

text \<open>\<open>strcmp(a, b) == 0\<close>\<close>

definition strcmp_eq :: "string \<Rightarrow> string \<Rightarrow> bool" where
  "strcmp_eq a b = (cstr a = cstr b)"

text \<open>\<open>strncmp(a, b, n) == 0\<close>: the first \<open>n\<close> characters agree, or both strings end
  before that at the same place.\<close>

definition strncmp_eq :: "string \<Rightarrow> string \<Rightarrow> nat \<Rightarrow> bool" where
  "strncmp_eq a b n = (take n (cstr a) = take n (cstr b))"

text \<open>\<open>strncpy(dst, src, n)\<close> writes exactly \<open>n\<close> bytes: the string, cut at \<open>n\<close>, padded
  with NUL bytes.\<close>

definition strncpy :: "nat \<Rightarrow> string \<Rightarrow> string" where
  "strncpy n src = take n (cstr src @ replicate n NUL)"

text \<open>The index of the first element a loop over a linked list stops at.\<close>

fun first_index :: "('a \<Rightarrow> bool) \<Rightarrow> 'a list \<Rightarrow> nat option" where
  "first_index P [] = None"
| "first_index P (x # xs) = (if P x then Some 0 else map_option Suc (first_index P xs))"

section \<open>The path filter (metadata\_parser.c)\<close>

text \<open>A null pointer is \<open>None\<close>. The character at index \<open>filter_len\<close> of \<open>full_path\<close>
  is read only after \<open>strncmp\<close> has found the first \<open>filter_len\<close> characters equal to
  the filter, so the index is within the string or at its terminator.\<close>

definition is_under_shared_path :: "string option \<Rightarrow> string option \<Rightarrow> bool" where
  "is_under_shared_path full_path filter_pattern =
     (case (full_path, filter_pattern) of
        (Some fp, Some flt) \<Rightarrow>
          if strcmp_eq flt ''*'' then True
          else
            let filter_len = strlen flt in
            if \<not> strncmp_eq fp flt filter_len then False
            else if filter_len = strlen fp \<or> cstr fp ! filter_len = CHR ''/'' then True
            else False
      | _ \<Rightarrow> False)"

section \<open>The cache structures (cache\_io.h)\<close>

definition CACHE_MAGIC :: nat where
  "CACHE_MAGIC = 0x524D4348"

definition CACHE_VERSION :: nat where
  "CACHE_VERSION = 2"

definition UUID_LEN :: nat where
  "UUID_LEN = 36"

definition MAX_PAGE_NUM_LEN :: nat where
  "MAX_PAGE_NUM_LEN = 8"

definition PATH_MAX :: nat where
  "PATH_MAX = 4096"

definition HASH_TABLE_SIZE :: nat where
  "HASH_TABLE_SIZE = 256"

text \<open>\<open>sizeof(time_t)\<close>: the 64-bit \<open>time_t\<close> of the device's toolchain.\<close>

definition TIME_T_SIZE :: nat where
  "TIME_T_SIZE = 8"

type_synonym time_t = "64 word"

definition SYNC_PENDING :: "8 word" where
  "SYNC_PENDING = 0"

definition SYNC_UPLOADED :: "8 word" where
  "SYNC_UPLOADED = 1"

definition SYNC_FAILED :: "8 word" where
  "SYNC_FAILED = 2"

definition SYNC_SKIPPED :: "8 word" where
  "SYNC_SKIPPED = 3"

text \<open>
  \<open>uuid\<close> and \<open>doc_id\<close> hold the first \<open>UUID_LEN\<close> bytes of their arrays and \<open>page_num\<close>
  the first \<open>MAX_PAGE_NUM_LEN - 1\<close>: the last byte of each array is NUL after every write
  of the program. The \<open>next\<close> pointers are the lists: a document owns the list of its
  pages, a bucket of the table is the list of its documents.
\<close>

record PageEntry =
  uuid :: string
  page_num :: string
  mtime :: time_t
  sync_status :: "8 word"
  retry_count :: "8 word"

record DocumentEntry =
  doc_id :: string
  pages :: "PageEntry list"

record CacheHandle =
  table :: "DocumentEntry list list"
  dirty :: bool
  path :: string

text \<open>A pointer to a document is its bucket and its place in the bucket's chain; a
  pointer to a page adds the page's place in the document's chain.\<close>

type_synonym doc_ptr = "nat \<times> nat"
type_synonym page_ptr = "nat \<times> nat \<times> nat"

definition doc_at :: "CacheHandle \<Rightarrow> doc_ptr \<Rightarrow> DocumentEntry" where
  "doc_at c d = (case d of (h, i) \<Rightarrow> table c ! h ! i)"

definition page_at :: "CacheHandle \<Rightarrow> page_ptr \<Rightarrow> PageEntry" where
  "page_at c p = (case p of (h, i, j) \<Rightarrow> pages (table c ! h ! i) ! j)"

definition valid_ptr :: "CacheHandle \<Rightarrow> page_ptr \<Rightarrow> bool" where
  "valid_ptr c p = (case p of (h, i, j) \<Rightarrow>
     h < length (table c) \<and> i < length (table c ! h) \<and> j < length (pages (table c ! h ! i)))"

text \<open>A write through a page pointer.\<close>

definition set_page :: "CacheHandle \<Rightarrow> page_ptr \<Rightarrow> PageEntry \<Rightarrow> CacheHandle" where
  "set_page c p pg = (case p of (h, i, j) \<Rightarrow>
     c\<lparr>table := (table c)[h := (table c ! h)[i :=
          (table c ! h ! i)\<lparr>pages := (pages (table c ! h ! i))[j := pg]\<rparr>]]\<rparr>)"

text \<open>All documents, in the order of the loops over the table and its chains.\<close>

definition all_documents :: "CacheHandle \<Rightarrow> DocumentEntry list" where
  "all_documents c = concat (table c)"

section \<open>The files\<close>

text \<open>A file system maps a path to the contents of the file there. An open stream is
  the list of the bytes not yet read. \<open>fread(buf, n, 1, f)\<close> with \<open>n > 0\<close> returns 1 and
  advances by \<open>n\<close> when \<open>n\<close> bytes are left, and otherwise returns 0 at the end of
  the file.\<close>

type_synonym filesystem = "string \<Rightarrow> string option"

definition fread :: "nat \<Rightarrow> string \<Rightarrow> string option \<times> string" where
  "fread n f = (if length f < n then (None, []) else (Some (take n f), drop n f))"

text \<open>Integers are stored as their bytes in memory, least significant first.\<close>

fun le_encode :: "nat \<Rightarrow> nat \<Rightarrow> string" where
  "le_encode 0 v = []"
| "le_encode (Suc k) v = char_of (v mod 256) # le_encode k (v div 256)"

fun le_decode :: "string \<Rightarrow> nat" where
  "le_decode [] = 0"
| "le_decode (b # bs) = of_char b + 256 * le_decode bs"

text \<open>What the program's environment decides: in \<open>cache_save\<close>, whether the temporary
  file can be opened for writing and whether the rename succeeds; in
  \<open>cache_get_pending_pages\<close>, whether there is memory for an array of so many pointers.\<close>

record io_env =
  fopen_ok :: bool
  rename_ok :: bool
  calloc_ok :: "nat \<Rightarrow> bool"

definition rename_file :: "filesystem \<Rightarrow> string \<Rightarrow> string \<Rightarrow> filesystem" where
  "rename_file fs src dst = (if src = dst then fs else (fs(dst := fs src))(src := None))"

section \<open>The cache (cache\_io.c)\<close>

text \<open>\<open>hash\<close> is an \<open>unsigned int\<close> of 32 bits; the characters are those of an
  \<open>unsigned char\<close> platform.\<close>

fun hash_loop :: "nat \<Rightarrow> string \<Rightarrow> nat" where
  "hash_loop hash [] = hash"
| "hash_loop hash (c # str) =
     hash_loop ((((hash * 2 ^ 5) mod 2 ^ 32 + hash) mod 2 ^ 32 + of_char c) mod 2 ^ 32) str"

definition hash_string :: "string \<Rightarrow> nat" where
  "hash_string str = hash_loop 5381 (cstr str) mod HASH_TABLE_SIZE"

definition empty_table :: "DocumentEntry list list" where
  "empty_table = replicate HASH_TABLE_SIZE []"

text \<open>Adding a document at the head of its bucket.\<close>

definition add_to_table :: "DocumentEntry \<Rightarrow> DocumentEntry list list \<Rightarrow> DocumentEntry list list" where
  "add_to_table doc t = (let hash = hash_string (doc_id doc) in t[hash := doc # t ! hash])"

subsection \<open>The load inside \<open>cache_open\<close>\<close>

text \<open>One iteration of the page loop: the page read, or \<open>None\<close> where the loop breaks,
  and the stream after it.\<close>

definition open_read_page :: "nat \<Rightarrow> string \<Rightarrow> PageEntry option \<times> string" where
  "open_read_page version f =
     (case fread UUID_LEN f of
        (None, f1) \<Rightarrow> (None, f1)
      | (Some u, f1) \<Rightarrow>
     (case fread 1 f1 of
        (None, f2) \<Rightarrow> (None, f2)
      | (Some l, f2) \<Rightarrow>
          let page_num_len = le_decode l in
          if page_num_len \<ge> MAX_PAGE_NUM_LEN then (None, f2)
          else
     (case (if page_num_len > 0 then fread page_num_len f2 else (Some [], f2)) of
        (None, f3) \<Rightarrow> (None, f3)
      | (Some pn, f3) \<Rightarrow>
     (case fread TIME_T_SIZE f3 of
        (None, f4) \<Rightarrow> (None, f4)
      | (Some mt, f4) \<Rightarrow>
          let page = \<lparr>uuid = u,
                      page_num = pn @ replicate (MAX_PAGE_NUM_LEN - 1 - length pn) NUL,
                      mtime = word_of_nat (le_decode mt),
                      sync_status = 0, retry_count = 0\<rparr> in
          if version = CACHE_VERSION then
            (case fread 1 f4 of
               (None, f5) \<Rightarrow> (None, f5)
             | (Some st, f5) \<Rightarrow>
            (case fread 1 f5 of
               (None, f6) \<Rightarrow> (None, f6)
             | (Some rc, f6) \<Rightarrow>
                 (Some (page\<lparr>sync_status := word_of_nat (le_decode st),
                             retry_count := word_of_nat (le_decode rc)\<rparr>), f6)))
          else
            (Some (page\<lparr>sync_status := SYNC_PENDING, retry_count := 0\<rparr>), f4)))))"

fun open_read_pages :: "nat \<Rightarrow> nat \<Rightarrow> string \<Rightarrow> PageEntry list \<times> string" where
  "open_read_pages version 0 f = ([], f)"
| "open_read_pages version (Suc n) f =
     (case open_read_page version f of
        (None, f') \<Rightarrow> ([], f')
      | (Some page, f') \<Rightarrow>
          (case open_read_pages version n f' of (ps, f'') \<Rightarrow> (page # ps, f'')))"

fun open_read_docs ::
  "nat \<Rightarrow> nat \<Rightarrow> string \<Rightarrow> DocumentEntry list list \<Rightarrow> DocumentEntry list list" where
  "open_read_docs version 0 f t = t"
| "open_read_docs version (Suc n) f t =
     (case fread 1 f of
        (None, f1) \<Rightarrow> t
      | (Some l, f1) \<Rightarrow>
          if le_decode l \<noteq> UUID_LEN then t
          else
     (case fread (le_decode l) f1 of
        (None, f2) \<Rightarrow> t
      | (Some d, f2) \<Rightarrow>
     (case fread 2 f2 of
        (None, f3) \<Rightarrow> t
      | (Some np, f3) \<Rightarrow>
     (case open_read_pages version (le_decode np) f3 of
        (ps, f4) \<Rightarrow>
          open_read_docs version n f4 (add_to_table \<lparr>doc_id = d, pages = ps\<rparr> t)))))"

definition cache_open :: "filesystem \<Rightarrow> string \<Rightarrow> CacheHandle" where
  "cache_open fs p =
     (let cache = \<lparr>table = empty_table, dirty = False,
                   path = take (PATH_MAX - 1) (cstr p)\<rparr> in
      case fs (cstr p) of
        None \<Rightarrow> cache
      | Some f \<Rightarrow>
     (case fread 4 f of
        (None, f1) \<Rightarrow> cache
      | (Some magic, f1) \<Rightarrow>
          if le_decode magic \<noteq> CACHE_MAGIC then cache
          else
     (case fread 1 f1 of
        (None, f2) \<Rightarrow> cache
      | (Some v, f2) \<Rightarrow>
          let version = le_decode v in
          if version \<noteq> CACHE_VERSION \<and> version \<noteq> 1 then cache
          else
     (case fread 4 f2 of
        (None, f3) \<Rightarrow> cache
      | (Some num_docs, f3) \<Rightarrow>
          cache\<lparr>table := open_read_docs version (le_decode num_docs) f3 (table cache)\<rparr>))))"

subsection \<open>\<open>cache_save\<close>\<close>

definition write_page :: "PageEntry \<Rightarrow> string" where
  "write_page page =
     take UUID_LEN (uuid page)
     @ le_encode 1 (strlen (page_num page))
     @ cstr (page_num page)
     @ le_encode TIME_T_SIZE (unat (mtime page))
     @ le_encode 1 (unat (sync_status page))
     @ le_encode 1 (unat (retry_count page))"

text \<open>\<open>num_pages\<close> is a \<open>uint16_t\<close> counter.\<close>

definition write_document :: "DocumentEntry \<Rightarrow> string" where
  "write_document doc =
     le_encode 1 UUID_LEN
     @ take UUID_LEN (doc_id doc)
     @ le_encode 2 (length (pages doc) mod 2 ^ 16)
     @ concat (map write_page (pages doc))"

text \<open>\<open>num_docs\<close> is a \<open>uint32_t\<close> counter.\<close>

definition write_cache :: "CacheHandle \<Rightarrow> string" where
  "write_cache c =
     le_encode 4 CACHE_MAGIC
     @ le_encode 1 CACHE_VERSION
     @ le_encode 4 (length (all_documents c) mod 2 ^ 32)
     @ concat (map (\<lambda>bucket. concat (map write_document bucket)) (table c))"

text \<open>The results of \<open>fwrite\<close> are not checked by the program; the writes are taken
  to be complete. The advisory locks have no effect within one process.\<close>

definition cache_save :: "io_env \<Rightarrow> filesystem \<Rightarrow> CacheHandle \<Rightarrow> int \<times> filesystem \<times> CacheHandle" where
  "cache_save env fs c =
     (if \<not> dirty c then (0, fs, c)
      else
        let temp_path = take (PATH_MAX - 1) (path c @ ''.tmp'') in
        if \<not> fopen_ok env then (- 1, fs, c)
        else
          let fs1 = fs(temp_path := Some (write_cache c)) in
          if \<not> rename_ok env then (- 1, fs1(temp_path := None), c)
          else (0, rename_file fs1 temp_path (path c), c\<lparr>dirty := False\<rparr>))"

text \<open>The name of the temporary file, as \<open>snprintf\<close> leaves it in its buffer.\<close>

definition temp_path_of :: "CacheHandle \<Rightarrow> string" where
  "temp_path_of c = take (PATH_MAX - 1) (path c @ ''.tmp'')"

subsection \<open>Lookup and update\<close>

definition cache_find_document :: "CacheHandle \<Rightarrow> string \<Rightarrow> doc_ptr option" where
  "cache_find_document c d_id =
     (let hash = hash_string d_id in
      map_option (\<lambda>i. (hash, i)) (first_index (\<lambda>doc. strcmp_eq (doc_id doc) d_id) (table c ! hash)))"

definition cache_find_page :: "DocumentEntry \<Rightarrow> string \<Rightarrow> nat option" where
  "cache_find_page doc page_uuid = first_index (\<lambda>page. strcmp_eq (uuid page) page_uuid) (pages doc)"

text \<open>A page from \<open>calloc\<close>: every byte is zero.\<close>

definition zero_page :: PageEntry where
  "zero_page = \<lparr>uuid = replicate UUID_LEN NUL, page_num = replicate (MAX_PAGE_NUM_LEN - 1) NUL,
                 mtime = 0, sync_status = 0, retry_count = 0\<rparr>"

definition cache_add_or_update_page ::
  "CacheHandle \<Rightarrow> string \<Rightarrow> string \<Rightarrow> string option \<Rightarrow> time_t \<Rightarrow> 8 word \<Rightarrow> int \<times> CacheHandle" where
  "cache_add_or_update_page c d_id page_uuid page_number mt status =
     (let (d, c1) =
            (case cache_find_document c d_id of
               Some d \<Rightarrow> (d, c)
             | None \<Rightarrow>
                 let hash = hash_string d_id in
                 ((hash, 0),
                  c\<lparr>table := (table c)[hash :=
                       \<lparr>doc_id = strncpy UUID_LEN d_id, pages = []\<rparr> # table c ! hash]\<rparr>));
          doc = doc_at c1 d;
          (j, c2) =
            (case cache_find_page doc page_uuid of
               Some j \<Rightarrow> (j, c1)
             | None \<Rightarrow>
                 (0, c1\<lparr>table := (table c1)[fst d := (table c1 ! fst d)[snd d :=
                           doc\<lparr>pages := zero_page\<lparr>uuid := strncpy UUID_LEN page_uuid\<rparr> # pages doc\<rparr>]]\<rparr>));
          p = (fst d, snd d, j);
          page = page_at c2 p;
          page1 = (case page_number of
                     Some pn \<Rightarrow> page\<lparr>page_num := strncpy (MAX_PAGE_NUM_LEN - 1) pn\<rparr>
                   | None \<Rightarrow> page);
          page2 = page1\<lparr>mtime := mt, sync_status := status\<rparr>
      in (0, (set_page c2 p page2)\<lparr>dirty := True\<rparr>))"

definition cache_update_page_status ::
  "CacheHandle \<Rightarrow> string \<Rightarrow> string \<Rightarrow> 8 word \<Rightarrow> 8 word \<Rightarrow> int \<times> CacheHandle" where
  "cache_update_page_status c d_id page_uuid status retries =
     (case cache_find_document c d_id of
        None \<Rightarrow> (- 1, c)
      | Some d \<Rightarrow>
     (case cache_find_page (doc_at c d) page_uuid of
        None \<Rightarrow> (- 1, c)
      | Some j \<Rightarrow>
          let p = (fst d, snd d, j) in
          (0, (set_page c p ((page_at c p)\<lparr>sync_status := status, retry_count := retries\<rparr>))
                \<lparr>dirty := True\<rparr>)))"

subsection \<open>\<open>cache_get_pending_pages\<close>\<close>

text \<open>The three nested loops; \<open>results\<close> holds the \<open>count\<close> pointers stored so far.\<close>

fun pending_in_pages ::
  "nat \<Rightarrow> nat \<Rightarrow> nat \<Rightarrow> nat \<Rightarrow> PageEntry list \<Rightarrow> page_ptr list \<Rightarrow> page_ptr list" where
  "pending_in_pages max_pages h i j [] results = results"
| "pending_in_pages max_pages h i j (page # rest) results =
     (if length results < max_pages then
        pending_in_pages max_pages h i (Suc j) rest
          (if sync_status page = SYNC_PENDING then results @ [(h, i, j)] else results)
      else results)"

fun pending_in_docs ::
  "nat \<Rightarrow> nat \<Rightarrow> nat \<Rightarrow> DocumentEntry list \<Rightarrow> page_ptr list \<Rightarrow> page_ptr list" where
  "pending_in_docs max_pages h i [] results = results"
| "pending_in_docs max_pages h i (doc # rest) results =
     (if length results < max_pages then
        pending_in_docs max_pages h (Suc i) rest
          (pending_in_pages max_pages h i 0 (pages doc) results)
      else results)"

fun pending_in_table ::
  "nat \<Rightarrow> nat \<Rightarrow> DocumentEntry list list \<Rightarrow> page_ptr list \<Rightarrow> page_ptr list" where
  "pending_in_table max_pages h [] results = results"
| "pending_in_table max_pages h (bucket # rest) results =
     (if length results < max_pages then
        pending_in_table max_pages (Suc h) rest
          (pending_in_docs max_pages h 0 bucket results)
      else results)"

text \<open>An \<open>int\<close> has 32 bits and is read as a signed number; \<open>size_t\<close> has 64 bits and a
  pointer 8 bytes.\<close>

definition INT_MAX :: int where
  "INT_MAX = 2147483647"

definition SIZE_BITS :: nat where
  "SIZE_BITS = 64"

definition POINTER_SIZE :: nat where
  "POINTER_SIZE = 8"

text \<open>\<open>calloc(nmemb, elsize)\<close> returns a null pointer when \<open>nmemb * elsize\<close> does not fit a
  \<open>size_t\<close>, and otherwise when the environment has no memory for the array.\<close>

definition calloc_succeeds :: "io_env \<Rightarrow> nat \<Rightarrow> nat \<Rightarrow> bool" where
  "calloc_succeeds env nmemb elsize = (nmemb * elsize < 2 ^ SIZE_BITS \<and> calloc_ok env nmemb)"

text \<open>The result is a null pointer (\<open>None\<close>) or an array of \<open>max_pages + 1\<close> entries from
  \<open>calloc\<close>, of which the first \<open>count\<close> are set. The sum \<open>max_pages + 1\<close> is computed in
  an \<open>int\<close>, where it wraps at \<open>INT_MAX\<close>, and converted to the \<open>size_t\<close> that \<open>calloc\<close>
  takes.\<close>

definition cache_get_pending_pages ::
  "io_env \<Rightarrow> CacheHandle option \<Rightarrow> 32 word \<Rightarrow> page_ptr option list option" where
  "cache_get_pending_pages env cache max_pages =
     (case cache of
        None \<Rightarrow> None
      | Some c \<Rightarrow>
          if sint max_pages \<le> 0 then None
          else
            let nmemb = nat (sint (max_pages + 1) mod 2 ^ SIZE_BITS) in
            if \<not> calloc_succeeds env nmemb POINTER_SIZE then None
            else
              let results = pending_in_table (nat (sint max_pages)) 0 (table c) [] in
              Some (map Some results @ replicate (nmemb - length results) None))"

definition cache_count_by_status :: "CacheHandle \<Rightarrow> 8 word \<Rightarrow> nat" where
  "cache_count_by_status c status =
     length (filter (\<lambda>page. sync_status page = status) (concat (map pages (all_documents c))))"

definition cache_get_document_for_page :: "CacheHandle \<Rightarrow> string \<Rightarrow> string option" where
  "cache_get_document_for_page c page_uuid =
     map_option doc_id (find (\<lambda>doc. cache_find_page doc page_uuid \<noteq> None) (all_documents c))"

subsection \<open>The load inside \<open>cache_reload\<close>\<close>

definition reload_read_page :: "nat \<Rightarrow> string \<Rightarrow> PageEntry option \<times> string" where
  "reload_read_page version f =
     (case fread UUID_LEN f of
        (None, f1) \<Rightarrow> (None, f1)
      | (Some u, f1) \<Rightarrow>
     (case fread 1 f1 of
        (None, f2) \<Rightarrow> (None, f2)
      | (Some l, f2) \<Rightarrow>
          let page_num_len = le_decode l in
          if page_num_len \<ge> MAX_PAGE_NUM_LEN then (None, f2)
          else
     (case (if page_num_len > 0 then fread page_num_len f2 else (Some [], f2)) of
        (None, f3) \<Rightarrow> (None, f3)
      | (Some pn, f3) \<Rightarrow>
     (case fread TIME_T_SIZE f3 of
        (None, f4) \<Rightarrow> (None, f4)
      | (Some mt, f4) \<Rightarrow>
          let page = \<lparr>uuid = u,
                      page_num = pn @ replicate (MAX_PAGE_NUM_LEN - 1 - length pn) NUL,
                      mtime = word_of_nat (le_decode mt),
                      sync_status = 0, retry_count = 0\<rparr> in
          if version = CACHE_VERSION then
            (case fread 1 f4 of
               (None, f5) \<Rightarrow> (None, f5)
             | (Some st, f5) \<Rightarrow>
            (case fread 1 f5 of
               (None, f6) \<Rightarrow> (None, f6)
             | (Some rc, f6) \<Rightarrow>
                 (Some (page\<lparr>sync_status := word_of_nat (le_decode st),
                             retry_count := word_of_nat (le_decode rc)\<rparr>), f6)))
          else
            (Some (page\<lparr>sync_status := SYNC_PENDING, retry_count := 0\<rparr>), f4)))))"

fun reload_read_pages :: "nat \<Rightarrow> nat \<Rightarrow> string \<Rightarrow> PageEntry list \<times> string" where
  "reload_read_pages version 0 f = ([], f)"
| "reload_read_pages version (Suc n) f =
     (case reload_read_page version f of
        (None, f') \<Rightarrow> ([], f')
      | (Some page, f') \<Rightarrow>
          (case reload_read_pages version n f' of (ps, f'') \<Rightarrow> (page # ps, f'')))"

fun reload_read_docs ::
  "nat \<Rightarrow> nat \<Rightarrow> string \<Rightarrow> DocumentEntry list list \<Rightarrow> DocumentEntry list list" where
  "reload_read_docs version 0 f t = t"
| "reload_read_docs version (Suc n) f t =
     (case fread 1 f of
        (None, f1) \<Rightarrow> t
      | (Some l, f1) \<Rightarrow>
          if le_decode l \<noteq> UUID_LEN then t
          else
     (case fread (le_decode l) f1 of
        (None, f2) \<Rightarrow> t
      | (Some d, f2) \<Rightarrow>
     (case fread 2 f2 of
        (None, f3) \<Rightarrow> t
      | (Some np, f3) \<Rightarrow>
     (case reload_read_pages version (le_decode np) f3 of
        (ps, f4) \<Rightarrow>
          reload_read_docs version n f4 (add_to_table \<lparr>doc_id = d, pages = ps\<rparr> t)))))"

definition cache_reload :: "filesystem \<Rightarrow> CacheHandle \<Rightarrow> int \<times> CacheHandle" where
  "cache_reload fs c =
     (let cache = c\<lparr>table := map (\<lambda>bucket. []) (table c)\<rparr> in
      case fs (path c) of
        None \<Rightarrow> (0, cache\<lparr>dirty := False\<rparr>)
      | Some f \<Rightarrow>
     (case fread 4 f of
        (None, f1) \<Rightarrow> (- 1, cache)
      | (Some magic, f1) \<Rightarrow>
          if le_decode magic \<noteq> CACHE_MAGIC then (- 1, cache)
          else
     (case fread 1 f1 of
        (None, f2) \<Rightarrow> (- 1, cache)
      | (Some v, f2) \<Rightarrow>
          let version = le_decode v in
          if version \<noteq> CACHE_VERSION \<and> version \<noteq> 1 then (- 1, cache)
          else
     (case fread 4 f2 of
        (None, f3) \<Rightarrow> (- 1, cache)
      | (Some num_docs, f3) \<Rightarrow>
          (0, cache\<lparr>table := reload_read_docs version (le_decode num_docs) f3 (table cache),
                    dirty := False\<rparr>)))))"

section \<open>The change scanner (watcher.c)\<close>

text \<open>A directory entry with the result of \<open>stat\<close> on it: the modification time, or
  \<open>None\<close> where \<open>stat\<close> fails.\<close>

record dir_entry =
  d_name :: string
  st_mtime :: "time_t option"

text \<open>The page id of a directory entry: the name without its extension \<open>.rm\<close>, found
  at the last dot, where that leaves \<open>UUID_LEN\<close> characters.\<close>

definition rm_page_uuid :: "string \<Rightarrow> string option" where
  "rm_page_uuid name =
     (let n = cstr name in
      if CHR ''.'' \<notin> set n then None
      else
        let name_len = length n - 1 - length (takeWhile (\<lambda>c. c \<noteq> CHR ''.'') (rev n)) in
        if \<not> strcmp_eq (drop name_len n) ''.rm'' then None
        else if name_len \<noteq> UUID_LEN then None
        else Some (strncpy UUID_LEN n))"

text \<open>The body of the loop of \<open>scan_document_pages\<close> from the lookup on, for one page file
  with modification time \<open>st\<close>; the second component counts the page as updated.\<close>

definition scan_page ::
  "CacheHandle \<Rightarrow> string \<Rightarrow> string \<Rightarrow> string \<Rightarrow> time_t \<Rightarrow> CacheHandle \<times> nat" where
  "scan_page c d_id page_uuid page_number st =
     (let doc = cache_find_document c d_id;
          page = (case doc of
                    Some d \<Rightarrow> map_option (\<lambda>j. (fst d, snd d, j))
                                (cache_find_page (doc_at c d) page_uuid)
                  | None \<Rightarrow> None)
      in case page of
           None \<Rightarrow>
             (snd (cache_add_or_update_page c d_id page_uuid (Some page_number) st SYNC_PENDING), 1)
         | Some p \<Rightarrow>
             if sint (mtime (page_at c p)) < sint st then
               (snd (cache_add_or_update_page c d_id page_uuid (Some page_number) st SYNC_PENDING), 1)
             else if sync_status (page_at c p) = SYNC_UPLOADED
                     \<and> sint (mtime (page_at c p)) < sint st then
               (let c1 = snd (cache_update_page_status c d_id page_uuid SYNC_PENDING 0)
                in (set_page c1 p ((page_at c1 p)\<lparr>mtime := st\<rparr>), 1))
             else (c, 0))"

text \<open>\<open>parse_content_file\<close> reads the document's content file: a collaborator, given as
  the contents of the \<open>page_num\<close> buffer after the call.\<close>

fun scan_entries ::
  "(string \<Rightarrow> string \<Rightarrow> string) \<Rightarrow> string \<Rightarrow> dir_entry list \<Rightarrow> CacheHandle \<Rightarrow> nat
     \<Rightarrow> CacheHandle \<times> nat" where
  "scan_entries parse_content_file d_id [] c pages_updated = (c, pages_updated)"
| "scan_entries parse_content_file d_id (entry # rest) c pages_updated =
     (case rm_page_uuid (d_name entry) of
        None \<Rightarrow> scan_entries parse_content_file d_id rest c pages_updated
      | Some page_uuid \<Rightarrow>
     (case st_mtime entry of
        None \<Rightarrow> scan_entries parse_content_file d_id rest c pages_updated
      | Some st \<Rightarrow>
          (case scan_page c d_id page_uuid (parse_content_file d_id page_uuid) st of
             (c', k) \<Rightarrow> scan_entries parse_content_file d_id rest c' (pages_updated + k))))"

text \<open>\<open>dir\<close> is the result of \<open>opendir\<close>: the entries of the document's directory, or
  \<open>None\<close>.\<close>

definition scan_document_pages ::
  "(string \<Rightarrow> string \<Rightarrow> string) \<Rightarrow> dir_entry list option \<Rightarrow> string \<Rightarrow> CacheHandle
     \<Rightarrow> CacheHandle \<times> nat" where
  "scan_document_pages parse_content_file dir d_id c =
     (case dir of
        None \<Rightarrow> (c, 0)
      | Some entries \<Rightarrow> scan_entries parse_content_file d_id entries c 0)"

section \<open>The upload orchestrator (httpclient.c)\<close>


record config_t =
  shared_path :: string
  max_retries :: int
  retry_delay_seconds :: int

record path_info_t =
  full_path :: string
  document_name :: string
  page_name :: string

text \<open>The collaborators of the orchestrator: path reconstruction from the metadata
  files (\<open>None\<close> for the result \<open>-1\<close>) and the transport, with the result of
  \<open>upload_file\<close>.\<close>

record collaborators =
  reconstruct_virtual_path :: "string \<Rightarrow> string \<Rightarrow> path_info_t option"
  upload_file :: "string \<Rightarrow> string \<Rightarrow> string \<Rightarrow> string \<Rightarrow> int"

text \<open>The body of the loop of \<open>process_pending_pages\<close> for the entry \<open>pending[i] = p\<close>; the
  second component is the increment of \<open>processed\<close>. \<open>new_retry_count\<close> is a \<open>uint8_t\<close>,
  compared with the \<open>int\<close> \<open>max_retries\<close>. The delay between attempts is not part of
  the state.\<close>

definition process_page ::
  "config_t \<Rightarrow> collaborators \<Rightarrow> CacheHandle \<Rightarrow> page_ptr \<Rightarrow> CacheHandle \<times> nat" where
  "process_page config ext c p =
     (let page = page_at c p in
      case cache_get_document_for_page c (uuid page) of
        None \<Rightarrow> (c, 0)
      | Some d_id \<Rightarrow>
     (case reconstruct_virtual_path ext d_id (page_num page) of
        None \<Rightarrow> (snd (cache_update_page_status c d_id (uuid page) SYNC_SKIPPED 0), 0)
      | Some path_info \<Rightarrow>
          if \<not> is_under_shared_path (Some (full_path path_info)) (Some (shared_path config)) then
            (snd (cache_update_page_status c d_id (uuid page) SYNC_SKIPPED 0), 0)
          else if upload_file ext d_id (uuid page) (page_num page) (full_path path_info) = 0 then
            (snd (cache_update_page_status c d_id (uuid page) SYNC_UPLOADED 0), 1)
          else
            let new_retry_count = retry_count page + 1 in
            if uint new_retry_count \<ge> max_retries config then
              (snd (cache_update_page_status c d_id (uuid page) SYNC_FAILED new_retry_count), 0)
            else
              (snd (cache_update_page_status c d_id (uuid page) SYNC_PENDING new_retry_count), 0)))"



section \<open>Well-formed stores\<close>

text \<open>The declared limits of the fields: an id fills its \<open>UUID_LEN\<close> bytes, a page
  number is a string of fewer than \<open>MAX_PAGE_NUM_LEN\<close> characters followed by NUL bytes
  only, the pages of a document are counted by a \<open>uint16_t\<close> and the documents by a
  \<open>uint32_t\<close>.\<close>

definition wf_page :: "PageEntry \<Rightarrow> bool" where
  "wf_page page =
     (length (uuid page) = UUID_LEN
      \<and> length (page_num page) = MAX_PAGE_NUM_LEN - 1
      \<and> page_num page = strncpy (MAX_PAGE_NUM_LEN - 1) (page_num page))"

definition wf_document :: "DocumentEntry \<Rightarrow> bool" where
  "wf_document doc =
     (length (doc_id doc) = UUID_LEN
      \<and> length (pages doc) < 2 ^ 16
      \<and> list_all wf_page (pages doc))"

definition wf_cache :: "CacheHandle \<Rightarrow> bool" where
  "wf_cache c =
     (length (table c) = HASH_TABLE_SIZE
      \<and> length (all_documents c) < 2 ^ 32
      \<and> list_all wf_document (all_documents c))"

text \<open>A store with no documents and no pages.\<close>

definition store_empty :: "CacheHandle \<Rightarrow> bool" where
  "store_empty c = (all_documents c = [])"

section \<open>Pending pages in scan order\<close>

text \<open>The pointers to the pages in PENDING status, in the order of the loops: bucket by
  bucket, document by document along a chain, page by page along a document's chain.\<close>

fun pending_ptrs_pages :: "nat \<Rightarrow> nat \<Rightarrow> nat \<Rightarrow> PageEntry list \<Rightarrow> page_ptr list" where
  "pending_ptrs_pages h i j [] = []"
| "pending_ptrs_pages h i j (page # rest) =
     (if sync_status page = SYNC_PENDING then [(h, i, j)] else [])
     @ pending_ptrs_pages h i (Suc j) rest"

fun pending_ptrs_docs :: "nat \<Rightarrow> nat \<Rightarrow> DocumentEntry list \<Rightarrow> page_ptr list" where
  "pending_ptrs_docs h i [] = []"
| "pending_ptrs_docs h i (doc # rest) =
     pending_ptrs_pages h i 0 (pages doc) @ pending_ptrs_docs h (Suc i) rest"

fun pending_ptrs_table :: "nat \<Rightarrow> DocumentEntry list list \<Rightarrow> page_ptr list" where
  "pending_ptrs_table h [] = []"
| "pending_ptrs_table h (bucket # rest) =
     pending_ptrs_docs h 0 bucket @ pending_ptrs_table (Suc h) rest"

text \<open>The lookups by id that the orchestrator makes for the page behind a pointer lead
  back to that page: the first document holding a page with this id is the page's
  document, found in its bucket, and the page is the first one with this id there.\<close>

definition resolves_to_self :: "CacheHandle \<Rightarrow> page_ptr \<Rightarrow> bool" where
  "resolves_to_self c p =
     (case cache_get_document_for_page c (uuid (page_at c p)) of
        None \<Rightarrow> False
      | Some d_id \<Rightarrow>
     (case cache_find_document c d_id of
        None \<Rightarrow> False
      | Some d \<Rightarrow>
          d = (fst p, fst (snd p))
          \<and> cache_find_page (doc_at c d) (uuid (page_at c p)) = Some (snd (snd p))))"

section \<open>The record layout\<close>

text \<open>The header of a cache file: magic, format version, document count.\<close>

definition cache_header :: "nat \<Rightarrow> nat \<Rightarrow> string" where
  "cache_header version num_docs =
     le_encode 4 CACHE_MAGIC @ le_encode 1 version @ le_encode 4 num_docs"

text \<open>The fields of a document record itself cannot be read from \<open>f\<close>: the id length
  is missing or is not \<open>UUID_LEN\<close>, or the id or the page count is cut short.\<close>

definition document_record_fails :: "string \<Rightarrow> bool" where
  "document_record_fails f =
     (length f < 1 + UUID_LEN + 2 \<or> le_decode (take 1 f) \<noteq> UUID_LEN)"

text \<open>The ids of a store, in place: what the lookups by id depend on.\<close>

definition doc_ids :: "DocumentEntry \<Rightarrow> string \<times> string list" where
  "doc_ids doc = (doc_id doc, map uuid (pages doc))"

definition store_ids :: "CacheHandle \<Rightarrow> (string \<times> string list) list list" where
  "store_ids c = map (map doc_ids) (table c)"

text \<open>The orchestrator reaches the delivery attempt for the page behind \<open>p\<close> (its path
  resolves and passes the filter) and the attempt fails.\<close>

definition delivery_fails :: "config_t \<Rightarrow> collaborators \<Rightarrow> CacheHandle \<Rightarrow> page_ptr \<Rightarrow> bool" where
  "delivery_fails config ext c p =
     (let page = page_at c p in
      case cache_get_document_for_page c (uuid page) of
        None \<Rightarrow> False
      | Some d_id \<Rightarrow>
     (case reconstruct_virtual_path ext d_id (page_num page) of
        None \<Rightarrow> False
      | Some path_info \<Rightarrow>
          is_under_shared_path (Some (full_path path_info)) (Some (shared_path config))
          \<and> upload_file ext d_id (uuid page) (page_num page) (full_path path_info) \<noteq> 0))"

text \<open>A page after the assignments at the end of \<open>cache_add_or_update_page\<close>.\<close>

definition upserted :: "PageEntry \<Rightarrow> string option \<Rightarrow> time_t \<Rightarrow> 8 word \<Rightarrow> PageEntry" where
  "upserted page page_number mt status =
     page\<lparr>page_num := (case page_number of
                         Some pn \<Rightarrow> strncpy (MAX_PAGE_NUM_LEN - 1) pn
                       | None \<Rightarrow> page_num page),
          mtime := mt, sync_status := status\<rparr>"

text \<open>The store after \<open>cache_update_page_status\<close> has reached the page behind \<open>p\<close>.\<close>

definition mark :: "CacheHandle \<Rightarrow> page_ptr \<Rightarrow> 8 word \<Rightarrow> 8 word \<Rightarrow> CacheHandle" where
  "mark c p status retries =
     (set_page c p ((page_at c p)\<lparr>sync_status := status, retry_count := retries\<rparr>))\<lparr>dirty := True\<rparr>"

section \<open>Cycles of the orchestrator\<close>



text \<open>The ids of all documents of a store, in scan order.\<close>

definition all_ids :: "CacheHandle \<Rightarrow> (string \<times> string list) list" where
  "all_ids c = map doc_ids (all_documents c)"

text \<open>Exactly one page has the id \<open>u\<close>, and a document that holds a page with the id
  \<open>u\<close> is the only document with its document id.\<close>

definition unique_ids :: "(string \<times> string list) list \<Rightarrow> string \<Rightarrow> bool" where
  "unique_ids ids u =
     (length (filter (\<lambda>x. strcmp_eq x u) (concat (map snd ids))) = 1
      \<and> list_all (\<lambda>d. list_ex (\<lambda>x. strcmp_eq x u) (snd d)
                        \<longrightarrow> length (filter (\<lambda>d'. strcmp_eq (fst d') (fst d)) ids) = 1) ids)"

text \<open>The first page with the id \<open>u\<close> in scan order.\<close>

definition page_by_uuid :: "CacheHandle \<Rightarrow> string \<Rightarrow> PageEntry option" where
  "page_by_uuid c u = find (\<lambda>page. strcmp_eq (uuid page) u) (concat (map pages (all_documents c)))"







text \<open>The store \<open>c'\<close> differs from \<open>c\<close> at most in the status and the retry count of
  pages, and is dirty if \<open>c\<close> is.\<close>

definition updates_only :: "CacheHandle \<Rightarrow> CacheHandle \<Rightarrow> bool" where
  "updates_only c c' =
     (store_ids c' = store_ids c \<and> path c' = path c \<and> (dirty c \<longrightarrow> dirty c')
      \<and> (\<forall>q. valid_ptr c q \<longrightarrow> page_num (page_at c' q) = page_num (page_at c q)
                             \<and> mtime (page_at c' q) = mtime (page_at c q)))"

section \<open>Example data\<close>

definition ex_doc_id :: string where
  "ex_doc_id = ''ab46df20-ea64-4e05-b1e2-6c47fa2d73c3''"

definition ex_page_uuid :: string where
  "ex_page_uuid = ''11111111-2222-3333-4444-555555555555''"

definition ex_page :: "8 word \<Rightarrow> 8 word \<Rightarrow> PageEntry" where
  "ex_page status retries =
     \<lparr>uuid = ex_page_uuid, page_num = CHR ''3'' # replicate 6 NUL, mtime = 100,
      sync_status = status, retry_count = retries\<rparr>"

text \<open>A store with one document of one page; the document id hashes to bucket 43.\<close>

definition ex_cache :: "8 word \<Rightarrow> 8 word \<Rightarrow> CacheHandle" where
  "ex_cache status retries =
     \<lparr>table = empty_table[43 := [\<lparr>doc_id = ex_doc_id, pages = [ex_page status retries]\<rparr>]],
      dirty = True, path = ''cache''\<rparr>"

text \<open>A file of format version 1 with the same document and page: the page record ends
  with the modification time.\<close>

definition ex_v1_file :: string where
  "ex_v1_file =
     cache_header 1 1
     @ (le_encode 1 UUID_LEN @ ex_doc_id @ le_encode 2 1
        @ (ex_page_uuid @ le_encode 1 1 @ ''3'' @ le_encode TIME_T_SIZE 100))"

text \<open>A store whose one document has \<open>2 ^ 16\<close> pages.\<close>

definition ex_many_pages :: "PageEntry list" where
  "ex_many_pages = replicate (2 ^ 16) (ex_page SYNC_PENDING 0)"

definition ex_big_cache :: CacheHandle where
  "ex_big_cache =
     \<lparr>table = empty_table[43 := [\<lparr>doc_id = ex_doc_id, pages = ex_many_pages\<rparr>]],
      dirty = True, path = ''cache''\<rparr>"

definition ex_config :: config_t where
  "ex_config = \<lparr>shared_path = ''*'', max_retries = 3, retry_delay_seconds = 20\<rparr>"

text \<open>Collaborators for which every path resolves and every delivery fails.\<close>

definition ex_failing :: collaborators where
  "ex_failing =
     \<lparr>reconstruct_virtual_path =
        (\<lambda>d_id pn. Some \<lparr>full_path = ''Work/Notes'', document_name = ''Notes'', page_name = ''Page 3''\<rparr>),
      upload_file = (\<lambda>d_id page_uuid pn virtual_path. - 1)\<rparr>"

definition ex_env :: io_env where
  "ex_env = \<lparr>fopen_ok = True, rename_ok = True, calloc_ok = (\<lambda>nmemb. True)\<rparr>"



text \<open>A store in which two documents hold a page with the same page id: the first
  document, in bucket 43, has it UPLOADED, the second, in bucket 44, has it PENDING.\<close>

definition ex_other_doc_id :: string where
  "ex_other_doc_id = ''ab46df20-ea64-4e05-b1e2-6c47fa2d73c4''"

definition ex_shared :: CacheHandle where
  "ex_shared =
     \<lparr>table = replicate 43 []
              @ [[\<lparr>doc_id = ex_doc_id, pages = [ex_page SYNC_UPLOADED 0]\<rparr>],
                 [\<lparr>doc_id = ex_other_doc_id, pages = [ex_page SYNC_PENDING 0]\<rparr>]]
              @ replicate 211 [],
      dirty = False, path = ''cache''\<rparr>"



section \<open>Facts about C strings\<close>

lemma cstr_idem [simp]: "cstr (cstr s) = cstr s"
  by (simp add: cstr_def)

lemma cstr_no_NUL: "NUL \<notin> set s \<Longrightarrow> cstr s = s"
  unfolding cstr_def by (rule takeWhile_eq_all_conv [THEN iffD2]) auto

lemma cstr_length_le: "length (cstr s) \<le> length s"
  by (simp add: cstr_def length_takeWhile_le)

lemma NUL_notin_cstr [simp]: "NUL \<notin> set (cstr s)"
  by (auto simp: cstr_def dest: set_takeWhileD)

lemma take_length_eq_prefix: "(take (length ys) xs = ys) = prefix ys xs"
  by (metis append_eq_conv_conj prefix_def)

lemma cstr_star: "cstr ''*'' = ''*''"
  by (simp add: cstr_def)

section \<open>The path filter\<close>

lemma is_under_shared_path_cstr:
  "is_under_shared_path (Some fp) (Some flt) =
     (cstr flt = ''*'' \<or>
      (take (length (cstr flt)) (cstr fp) = cstr flt
       \<and> (length (cstr flt) = length (cstr fp) \<or> cstr fp ! length (cstr flt) = CHR ''/'')))"
proof (cases "cstr flt = ''*''")
  case True
  then show ?thesis
    by (simp add: is_under_shared_path_def strcmp_eq_def cstr_star)
next
  case False
  then show ?thesis
    by (simp add: is_under_shared_path_def strcmp_eq_def cstr_star strncmp_eq_def strlen_def Let_def)
qed

text \<open>
  Claim C6. For every \<open>full_path\<close> and \<open>filter_pattern\<close> (C strings: no NUL byte inside),
  the path filter returns true when the pattern is \<open>*\<close>; for any other pattern it
  returns true iff the pattern is a prefix of \<open>full_path\<close> that ends at a path-component
  boundary: the next character of \<open>full_path\<close> is \<open>/\<close>, or the path ends there.
\<close>

theorem is_under_shared_path_spec:
  assumes "NUL \<notin> set fp" and "NUL \<notin> set flt"
  shows "is_under_shared_path (Some fp) (Some flt) =
           (flt = ''*'' \<or>
            (prefix flt fp \<and> (length fp = length flt \<or> fp ! length flt = CHR ''/'')))"
proof -
  have a: "cstr fp = fp" "cstr flt = flt" using assms by (simp_all add: cstr_no_NUL)
  show ?thesis
    unfolding is_under_shared_path_cstr a take_length_eq_prefix
    by (auto dest: prefix_length_le)
qed

text \<open>The filter \<open>Work\<close> matches \<open>Work\<close> and \<open>Work/Projects\<close> and does not match
  \<open>Workspace\<close>; the filter \<open>*\<close> matches everything.\<close>

theorem is_under_shared_path_spec_witness:
  "is_under_shared_path (Some ''Work'') (Some ''Work'')
   \<and> is_under_shared_path (Some ''Work/Projects'') (Some ''Work'')
   \<and> \<not> is_under_shared_path (Some ''Workspace'') (Some ''Work'')
   \<and> is_under_shared_path (Some ''Personal/Notes'') (Some ''*'')"
  using is_under_shared_path_spec [of "''Work''" "''Work''"]
    is_under_shared_path_spec [of "''Work/Projects''" "''Work''"]
    is_under_shared_path_spec [of "''Workspace''" "''Work''"]
    is_under_shared_path_spec [of "''Personal/Notes''" "''*''"]
  by simp

section \<open>The pending pages\<close>

lemma pending_in_pages_eq:
  "length results \<le> m \<Longrightarrow>
   pending_in_pages m h i j ps results = take m (results @ pending_ptrs_pages h i j ps)"
proof (induction ps arbitrary: j results)
  case Nil
  then show ?case by simp
next
  case (Cons page rest)
  show ?case
  proof (cases "length results < m")
    case True
    then show ?thesis using Cons.IH [of "results @ [(h, i, j)]" "Suc j"] Cons.IH [of results "Suc j"]
      by (auto simp: take_Cons')
  next
    case False
    with Cons.prems have "length results = m" by simp
    then show ?thesis by simp
  qed
qed

lemma length_pending_in_pages:
  "length results \<le> m \<Longrightarrow> length (pending_in_pages m h i j ps results) \<le> m"
  by (simp add: pending_in_pages_eq)

lemma pending_in_docs_eq:
  "length results \<le> m \<Longrightarrow>
   pending_in_docs m h i ds results = take m (results @ pending_ptrs_docs h i ds)"
proof (induction ds arbitrary: i results)
  case Nil
  then show ?case by simp
next
  case (Cons doc rest)
  show ?case
  proof (cases "length results < m")
    case True
    have le: "length (pending_in_pages m h i 0 (pages doc) results) \<le> m"
      using Cons.prems by (rule length_pending_in_pages)
    have "pending_in_docs m h i (doc # rest) results
          = take m (take m (results @ pending_ptrs_pages h i 0 (pages doc)) @ pending_ptrs_docs h (Suc i) rest)"
      using True Cons.IH [OF le] Cons.prems by (simp add: pending_in_pages_eq)
    also have "\<dots> = take m (results @ pending_ptrs_docs h i (doc # rest))"
      by (simp add: take_append min_def)
    finally show ?thesis .
  next
    case False
    with Cons.prems have "length results = m" by simp
    then show ?thesis by simp
  qed
qed

lemma length_pending_in_docs:
  "length results \<le> m \<Longrightarrow> length (pending_in_docs m h i ds results) \<le> m"
  by (simp add: pending_in_docs_eq)

lemma pending_in_table_eq:
  "length results \<le> m \<Longrightarrow>
   pending_in_table m h t results = take m (results @ pending_ptrs_table h t)"
proof (induction t arbitrary: h results)
  case Nil
  then show ?case by simp
next
  case (Cons bucket rest)
  show ?case
  proof (cases "length results < m")
    case True
    have le: "length (pending_in_docs m h 0 bucket results) \<le> m"
      using Cons.prems by (rule length_pending_in_docs)
    have "pending_in_table m h (bucket # rest) results
          = take m (take m (results @ pending_ptrs_docs h 0 bucket) @ pending_ptrs_table (Suc h) rest)"
      using True Cons.IH [OF le] Cons.prems by (simp add: pending_in_docs_eq)
    also have "\<dots> = take m (results @ pending_ptrs_table h (bucket # rest))"
      by (simp add: take_append min_def)
    finally show ?thesis .
  next
    case False
    with Cons.prems have "length results = m" by simp
    then show ?thesis by simp
  qed
qed

lemma set_pending_ptrs_pages:
  "set (pending_ptrs_pages h i j ps) =
     {(h, i, j + k) | k. k < length ps \<and> sync_status (ps ! k) = SYNC_PENDING}"
proof (induction ps arbitrary: j)
  case Nil
  then show ?case by simp
next
  case (Cons page rest)
  have "{(h, i, j + k) | k. k < length (page # rest) \<and> sync_status ((page # rest) ! k) = SYNC_PENDING}
      = (if sync_status page = SYNC_PENDING then {(h, i, j)} else {})
        \<union> {(h, i, Suc j + k) | k. k < length rest \<and> sync_status (rest ! k) = SYNC_PENDING}"
    (is "?A = ?B")
  proof (rule set_eqI)
    fix q
    show "q \<in> ?A \<longleftrightarrow> q \<in> ?B"
    proof
      assume "q \<in> ?A"
      then obtain k where k: "q = (h, i, j + k)" "k < length (page # rest)"
        "sync_status ((page # rest) ! k) = SYNC_PENDING" by blast
      show "q \<in> ?B"
      proof (cases k)
        case 0
        with k show ?thesis by simp
      next
        case (Suc k')
        with k have "q = (h, i, Suc j + k')" "k' < length rest" "sync_status (rest ! k') = SYNC_PENDING"
          by simp_all
        then show ?thesis by blast
      qed
    next
      assume "q \<in> ?B"
      then consider "sync_status page = SYNC_PENDING" "q = (h, i, j)"
        | k where "q = (h, i, Suc j + k)" "k < length rest" "sync_status (rest ! k) = SYNC_PENDING"
        by (auto split: if_splits)
      then show "q \<in> ?A"
      proof cases
        case 1
        then have "q = (h, i, j + 0) \<and> 0 < length (page # rest) \<and> sync_status ((page # rest) ! 0) = SYNC_PENDING"
          by simp
        then show ?thesis by blast
      next
        case 2
        then have "q = (h, i, j + Suc k) \<and> Suc k < length (page # rest) \<and> sync_status ((page # rest) ! Suc k) = SYNC_PENDING"
          by simp
        then show ?thesis by blast
      qed
    qed
  qed
  then show ?case using Cons.IH [of "Suc j"] by simp
qed

lemma distinct_pending_ptrs_pages: "distinct (pending_ptrs_pages h i j ps)"
proof (induction ps arbitrary: j)
  case Nil
  then show ?case by simp
next
  case (Cons page rest)
  have "(h, i, j) \<notin> set (pending_ptrs_pages h i (Suc j) rest)"
    by (simp add: set_pending_ptrs_pages)
  then show ?case using Cons.IH [of "Suc j"] by simp
qed

lemma pending_ptrs_pages_sound:
  "(a, b, k) \<in> set (pending_ptrs_pages h i j ps) \<Longrightarrow>
     a = h \<and> b = i \<and> j \<le> k \<and> k - j < length ps \<and> sync_status (ps ! (k - j)) = SYNC_PENDING"
  by (auto simp: set_pending_ptrs_pages)

lemma pending_ptrs_docs_sound:
  "(a, b, k) \<in> set (pending_ptrs_docs h i ds) \<Longrightarrow>
     a = h \<and> i \<le> b \<and> b - i < length ds \<and> k < length (pages (ds ! (b - i)))
     \<and> sync_status (pages (ds ! (b - i)) ! k) = SYNC_PENDING"
proof (induction ds arbitrary: i)
  case Nil
  then show ?case by simp
next
  case (Cons doc rest)
  from Cons.prems consider "(a, b, k) \<in> set (pending_ptrs_pages h i 0 (pages doc))"
    | "(a, b, k) \<in> set (pending_ptrs_docs h (Suc i) rest)" by auto
  then show ?case
  proof cases
    case 1
    from pending_ptrs_pages_sound [OF 1] show ?thesis by simp
  next
    case 2
    from Cons.IH [OF 2] show ?thesis by (auto simp: Suc_diff_le)
  qed
qed

lemma distinct_pending_ptrs_docs: "distinct (pending_ptrs_docs h i ds)"
proof (induction ds arbitrary: i)
  case Nil
  then show ?case by simp
next
  case (Cons doc rest)
  have "set (pending_ptrs_pages h i 0 (pages doc)) \<inter> set (pending_ptrs_docs h (Suc i) rest) = {}"
    by (auto dest!: pending_ptrs_pages_sound pending_ptrs_docs_sound)
  then show ?case using Cons.IH [of "Suc i"] by (simp add: distinct_pending_ptrs_pages)
qed

lemma pending_ptrs_table_sound:
  "(a, b, k) \<in> set (pending_ptrs_table h t) \<Longrightarrow>
     h \<le> a \<and> a - h < length t \<and> b < length (t ! (a - h)) \<and> k < length (pages (t ! (a - h) ! b))
     \<and> sync_status (pages (t ! (a - h) ! b) ! k) = SYNC_PENDING"
proof (induction t arbitrary: h)
  case Nil
  then show ?case by simp
next
  case (Cons bucket rest)
  from Cons.prems consider "(a, b, k) \<in> set (pending_ptrs_docs h 0 bucket)"
    | "(a, b, k) \<in> set (pending_ptrs_table (Suc h) rest)" by auto
  then show ?case
  proof cases
    case 1
    from pending_ptrs_docs_sound [OF 1] show ?thesis by simp
  next
    case 2
    from Cons.IH [OF 2] show ?thesis by (auto simp: Suc_diff_le)
  qed
qed

lemma distinct_pending_ptrs_table: "distinct (pending_ptrs_table h t)"
proof (induction t arbitrary: h)
  case Nil
  then show ?case by simp
next
  case (Cons bucket rest)
  have "set (pending_ptrs_docs h 0 bucket) \<inter> set (pending_ptrs_table (Suc h) rest) = {}"
    by (auto dest!: pending_ptrs_docs_sound pending_ptrs_table_sound)
  then show ?case using Cons.IH [of "Suc h"] by (simp add: distinct_pending_ptrs_docs)
qed

lemma pending_ptr_valid:
  assumes "p \<in> set (pending_ptrs_table 0 (table c))"
  shows "valid_ptr c p \<and> sync_status (page_at c p) = SYNC_PENDING"
proof -
  obtain a b k where p: "p = (a, b, k)" by (cases p)
  from pending_ptrs_table_sound [OF assms [unfolded p]] show ?thesis
    by (simp add: p valid_ptr_def page_at_def)
qed

lemma sint_succ:
  assumes "sint (m :: 32 word) < INT_MAX"
  shows "sint (m + 1) = sint m + 1"
proof -
  have a: "sint m < 2147483647" using assms by (simp add: INT_MAX_def)
  have b: "- (2 ^ 31) \<le> sint m" using sint_ge [of m] by simp
  have "sint (m + 1) = signed_take_bit 31 (sint m + sint (1 :: 32 word))"
    by (simp add: sint_word_ariths)
  also have "\<dots> = signed_take_bit 31 (sint m + 1)" by simp
  also have "\<dots> = sint m + 1"
    by (rule signed_take_bit_int_eq_self) (use a b in simp_all)
  finally show ?thesis .
qed

lemma sint_le_INT_MAX: "sint (m :: 32 word) \<le> INT_MAX"
  using sint_lt [of m] by (simp add: INT_MAX_def)

lemma sint_INT_MAX:
  assumes "sint (m :: 32 word) = INT_MAX"
  shows "m = 2147483647"
proof -
  from assms have "word_of_int (sint m) = (word_of_int 2147483647 :: 32 word)"
    by (simp add: INT_MAX_def)
  then show ?thesis by simp
qed

text \<open>The number of entries \<open>calloc\<close> is asked for.\<close>

lemma nmemb_in_range:
  assumes "0 < sint (m :: 32 word)" and "sint m < INT_MAX"
  shows "nat (sint (m + 1) mod 2 ^ SIZE_BITS) = Suc (nat (sint m))"
    and "calloc_succeeds env (Suc (nat (sint m))) POINTER_SIZE = calloc_ok env (Suc (nat (sint m)))"
proof -
  have lt: "sint m + 1 < 2 ^ 64" using assms(2) by (simp add: INT_MAX_def)
  have "sint (m + 1) mod 2 ^ SIZE_BITS = sint m + 1"
    using assms(1) lt by (simp add: sint_succ [OF assms(2)] SIZE_BITS_def)
  then show "nat (sint (m + 1) mod 2 ^ SIZE_BITS) = Suc (nat (sint m))"
    using assms(1) by simp
  have "Suc (nat (sint m)) < 2 ^ 32" using assms by (simp add: INT_MAX_def)
  then have "Suc (nat (sint m)) * 8 < 2 ^ 32 * (8 :: nat)" by simp
  also have "\<dots> < 2 ^ 64" by simp
  finally show "calloc_succeeds env (Suc (nat (sint m))) POINTER_SIZE = calloc_ok env (Suc (nat (sint m)))"
    by (simp add: calloc_succeeds_def POINTER_SIZE_def SIZE_BITS_def)
qed

lemma nmemb_at_INT_MAX:
  assumes "sint (m :: 32 word) = INT_MAX"
  shows "\<not> calloc_succeeds env (nat (sint (m + 1) mod 2 ^ SIZE_BITS)) POINTER_SIZE"
proof -
  have m: "m = 2147483647" using assms by (rule sint_INT_MAX)
  show ?thesis
    by (simp add: m calloc_succeeds_def POINTER_SIZE_def SIZE_BITS_def)
qed

lemma cache_get_pending_pages_eq:
  assumes "0 < sint n" and "sint n < INT_MAX" and "calloc_ok env (nat (sint n) + 1)"
  shows "cache_get_pending_pages env (Some c) n =
     Some (map Some (take (nat (sint n)) (pending_ptrs_table 0 (table c)))
           @ replicate (nat (sint n) + 1 - length (take (nat (sint n)) (pending_ptrs_table 0 (table c)))) None)"
  using assms
  by (simp add: cache_get_pending_pages_def pending_in_table_eq Let_def
      nmemb_in_range [OF assms(1,2)])

lemma cache_get_pending_pages_SomeD:
  assumes "cache_get_pending_pages env (Some c) n = Some pending"
  shows "0 < sint n" and "sint n < INT_MAX" and "calloc_ok env (nat (sint n) + 1)"
proof -
  show pos: "0 < sint n"
    using assms by (simp add: cache_get_pending_pages_def split: if_splits)
  have ok: "calloc_succeeds env (nat (sint (n + 1) mod 2 ^ SIZE_BITS)) POINTER_SIZE"
    using assms by (simp add: cache_get_pending_pages_def Let_def split: if_splits)
  with nmemb_at_INT_MAX [of n env] have "sint n \<noteq> INT_MAX" by blast
  with sint_le_INT_MAX [of n] show lt: "sint n < INT_MAX" by simp
  from ok show "calloc_ok env (nat (sint n) + 1)"
    by (simp add: nmemb_in_range [OF pos lt])
qed

lemma not_pending_not_returned:
  assumes "cache_get_pending_pages env (Some c) n = Some pending"
    and "sync_status (page_at c p) \<noteq> SYNC_PENDING"
  shows "Some p \<notin> set pending"
proof
  assume in_arr: "Some p \<in> set pending"
  note h = cache_get_pending_pages_SomeD [OF assms(1)]
  from assms(1) in_arr have "p \<in> set (take (nat (sint n)) (pending_ptrs_table 0 (table c)))"
    unfolding cache_get_pending_pages_eq [OF h] by auto
  then have "p \<in> set (pending_ptrs_table 0 (table c))" by (rule in_set_takeD)
  with pending_ptr_valid assms(2) show False by blast
qed

text \<open>
  Claim C10, as the code has it. \<open>cache_get_pending_pages\<close> returns a null result, not an
  empty array, for a
  null store and for every limit that is not positive; it also returns a null result for
  the limit \<open>INT_MAX\<close>, where \<open>max_pages + 1\<close> wraps, and whenever the array cannot be
  allocated. For a positive limit below \<open>INT_MAX\<close> whose array can be allocated, the
  result is an array of \<open>max_pages + 1\<close> entries: pointers to the first pages in PENDING
  status in scan order, at most \<open>max_pages\<close> of them, then null entries, so the array is
  terminated by a null entry. The pointers are pairwise distinct and each is a page of
  the store whose status is PENDING. The function reads the store and yields only the
  array: the store after the call is the store before it.
\<close>

theorem cache_get_pending_pages_spec:
  "cache_get_pending_pages env None max_pages = None
   \<and> (sint max_pages \<le> 0 \<longrightarrow> cache_get_pending_pages env cache max_pages = None)
   \<and> (sint max_pages = INT_MAX \<longrightarrow> cache_get_pending_pages env cache max_pages = None)
   \<and> (\<not> calloc_ok env (nat (sint max_pages) + 1)
        \<longrightarrow> cache_get_pending_pages env cache max_pages = None)
   \<and> (0 < sint max_pages \<and> sint max_pages < INT_MAX \<and> calloc_ok env (nat (sint max_pages) + 1) \<longrightarrow>
        (\<exists>ptrs. cache_get_pending_pages env (Some c) max_pages
                   = Some (map Some ptrs @ replicate (nat (sint max_pages) + 1 - length ptrs) None)
               \<and> ptrs = take (nat (sint max_pages)) (pending_ptrs_table 0 (table c))
               \<and> length ptrs \<le> nat (sint max_pages)
               \<and> distinct ptrs
               \<and> (\<forall>p \<in> set ptrs. valid_ptr c p \<and> sync_status (page_at c p) = SYNC_PENDING)))"
proof (intro conjI impI)
  show "cache_get_pending_pages env None max_pages = None"
    by (simp add: cache_get_pending_pages_def)
  show "cache_get_pending_pages env cache max_pages = None" if "sint max_pages \<le> 0"
    using that by (simp add: cache_get_pending_pages_def split: option.splits)
  show "cache_get_pending_pages env cache max_pages = None" if "sint max_pages = INT_MAX"
    using nmemb_at_INT_MAX [OF that, of env]
    by (simp add: cache_get_pending_pages_def Let_def split: option.splits)
  show "cache_get_pending_pages env cache max_pages = None"
    if no: "\<not> calloc_ok env (nat (sint max_pages) + 1)"
  proof (cases cache)
    case None
    then show ?thesis by (simp add: cache_get_pending_pages_def)
  next
    case (Some c')
    show ?thesis
    proof (cases "cache_get_pending_pages env (Some c') max_pages")
      case None
      with Some show ?thesis by simp
    next
      case (Some pending)
      from cache_get_pending_pages_SomeD(3) [OF this] no show ?thesis by simp
    qed
  qed
  show "\<exists>ptrs. cache_get_pending_pages env (Some c) max_pages
                   = Some (map Some ptrs @ replicate (nat (sint max_pages) + 1 - length ptrs) None)
               \<and> ptrs = take (nat (sint max_pages)) (pending_ptrs_table 0 (table c))
               \<and> length ptrs \<le> nat (sint max_pages)
               \<and> distinct ptrs
               \<and> (\<forall>p \<in> set ptrs. valid_ptr c p \<and> sync_status (page_at c p) = SYNC_PENDING)"
    if h: "0 < sint max_pages \<and> sint max_pages < INT_MAX \<and> calloc_ok env (nat (sint max_pages) + 1)"
  proof (intro exI conjI ballI)
    show "cache_get_pending_pages env (Some c) max_pages
          = Some (map Some (take (nat (sint max_pages)) (pending_ptrs_table 0 (table c)))
                  @ replicate (nat (sint max_pages) + 1
                      - length (take (nat (sint max_pages)) (pending_ptrs_table 0 (table c)))) None)"
      using h by (intro cache_get_pending_pages_eq) simp_all
    show "take (nat (sint max_pages)) (pending_ptrs_table 0 (table c))
          = take (nat (sint max_pages)) (pending_ptrs_table 0 (table c))" ..
    show "length (take (nat (sint max_pages)) (pending_ptrs_table 0 (table c))) \<le> nat (sint max_pages)"
      by simp
    show "distinct (take (nat (sint max_pages)) (pending_ptrs_table 0 (table c)))"
      by (rule distinct_take) (rule distinct_pending_ptrs_table)
    show "valid_ptr c p"
      if "p \<in> set (take (nat (sint max_pages)) (pending_ptrs_table 0 (table c)))" for p
      using pending_ptr_valid [of p c] that by (auto dest: in_set_takeD)
    show "sync_status (page_at c p) = SYNC_PENDING"
      if "p \<in> set (take (nat (sint max_pages)) (pending_ptrs_table 0 (table c)))" for p
      using pending_ptr_valid [of p c] that by (auto dest: in_set_takeD)
  qed
qed

theorem cache_get_pending_pages_spec_witness:
  "0 < sint (2 :: 32 word) \<and> sint (2 :: 32 word) < INT_MAX \<and> calloc_ok ex_env (nat (sint (2 :: 32 word)) + 1)
   \<and> (\<exists>ptrs. cache_get_pending_pages ex_env (Some (ex_cache SYNC_PENDING 0)) 2
                = Some (map Some ptrs @ replicate (nat (sint (2 :: 32 word)) + 1 - length ptrs) None)
            \<and> length ptrs \<le> nat (sint (2 :: 32 word))
            \<and> distinct ptrs
            \<and> (\<forall>p \<in> set ptrs. valid_ptr (ex_cache SYNC_PENDING 0) p
                  \<and> sync_status (page_at (ex_cache SYNC_PENDING 0) p) = SYNC_PENDING))
   \<and> sint (0 :: 32 word) \<le> 0
   \<and> cache_get_pending_pages ex_env (Some (ex_cache SYNC_PENDING 0)) 0 = None
   \<and> sint (- 1 :: 32 word) \<le> 0
   \<and> cache_get_pending_pages ex_env (Some (ex_cache SYNC_PENDING 0)) (- 1) = None
   \<and> sint (2147483647 :: 32 word) = INT_MAX
   \<and> cache_get_pending_pages ex_env (Some (ex_cache SYNC_UPLOADED 0)) 2147483647 = None
   \<and> \<not> calloc_ok (ex_env\<lparr>calloc_ok := \<lambda>nmemb. nmemb < 3\<rparr>) (nat (sint (2 :: 32 word)) + 1)
   \<and> cache_get_pending_pages (ex_env\<lparr>calloc_ok := \<lambda>nmemb. nmemb < 3\<rparr>)
        (Some (ex_cache SYNC_PENDING 0)) 2 = None"
proof -
  have pos: "0 < sint (2 :: 32 word) \<and> sint (2 :: 32 word) < INT_MAX
             \<and> calloc_ok ex_env (nat (sint (2 :: 32 word)) + 1)"
    by (simp add: INT_MAX_def ex_env_def)
  from cache_get_pending_pages_spec [where max_pages = 2 and c = "ex_cache SYNC_PENDING 0"
      and env = ex_env] pos
  have "\<exists>ptrs. cache_get_pending_pages ex_env (Some (ex_cache SYNC_PENDING 0)) 2
                = Some (map Some ptrs @ replicate (nat (sint (2 :: 32 word)) + 1 - length ptrs) None)
            \<and> ptrs = take (nat (sint (2 :: 32 word))) (pending_ptrs_table 0 (table (ex_cache SYNC_PENDING 0)))
            \<and> length ptrs \<le> nat (sint (2 :: 32 word))
            \<and> distinct ptrs
            \<and> (\<forall>p \<in> set ptrs. valid_ptr (ex_cache SYNC_PENDING 0) p
                  \<and> sync_status (page_at (ex_cache SYNC_PENDING 0) p) = SYNC_PENDING)"
    by blast
  then have A: "\<exists>ptrs. cache_get_pending_pages ex_env (Some (ex_cache SYNC_PENDING 0)) 2
                = Some (map Some ptrs @ replicate (nat (sint (2 :: 32 word)) + 1 - length ptrs) None)
            \<and> length ptrs \<le> nat (sint (2 :: 32 word))
            \<and> distinct ptrs
            \<and> (\<forall>p \<in> set ptrs. valid_ptr (ex_cache SYNC_PENDING 0) p
                  \<and> sync_status (page_at (ex_cache SYNC_PENDING 0) p) = SYNC_PENDING)"
    by blast
  have z: "sint (0 :: 32 word) \<le> 0" by simp
  with cache_get_pending_pages_spec [where max_pages = 0 and env = ex_env
      and cache = "Some (ex_cache SYNC_PENDING 0)"]
  have B: "cache_get_pending_pages ex_env (Some (ex_cache SYNC_PENDING 0)) 0 = None"
    by blast
  have n: "sint (- 1 :: 32 word) \<le> 0" by simp
  with cache_get_pending_pages_spec [where max_pages = "- 1" and env = ex_env
      and cache = "Some (ex_cache SYNC_PENDING 0)"]
  have C: "cache_get_pending_pages ex_env (Some (ex_cache SYNC_PENDING 0)) (- 1) = None"
    by blast
  have m: "sint (2147483647 :: 32 word) = INT_MAX" by (simp add: INT_MAX_def)
  with cache_get_pending_pages_spec [where max_pages = 2147483647 and env = ex_env
      and cache = "Some (ex_cache SYNC_UPLOADED 0)"]
  have D: "cache_get_pending_pages ex_env (Some (ex_cache SYNC_UPLOADED 0)) 2147483647 = None"
    by blast
  have f: "\<not> calloc_ok (ex_env\<lparr>calloc_ok := \<lambda>nmemb. nmemb < 3\<rparr>) (nat (sint (2 :: 32 word)) + 1)"
    by simp
  with cache_get_pending_pages_spec [where max_pages = 2
      and env = "ex_env\<lparr>calloc_ok := \<lambda>nmemb. nmemb < 3\<rparr>"
      and cache = "Some (ex_cache SYNC_PENDING 0)"]
  have E: "cache_get_pending_pages (ex_env\<lparr>calloc_ok := \<lambda>nmemb. nmemb < 3\<rparr>)
        (Some (ex_cache SYNC_PENDING 0)) 2 = None"
    by blast
  from pos A z B n C m D f E show ?thesis by blast
qed

text \<open>
  At the limit \<open>INT_MAX\<close> the example store, whose one page is PENDING, gets a null result
  and not an array: \<open>max_pages + 1\<close> wraps to a negative \<open>int\<close>, which as a \<open>size_t\<close> is a
  count that \<open>calloc\<close> refuses, although the environment has memory for any array.
\<close>

theorem pending_pages_null_at_INT_MAX:
  "0 < sint (2147483647 :: 32 word)
   \<and> calloc_ok ex_env (nat (sint (2147483647 :: 32 word)) + 1)
   \<and> sync_status (page_at (ex_cache SYNC_PENDING 0) (43, 0, 0)) = SYNC_PENDING
   \<and> cache_get_pending_pages ex_env (Some (ex_cache SYNC_PENDING 0)) 2147483647 = None"
  by (simp add: cache_get_pending_pages_def calloc_succeeds_def POINTER_SIZE_def SIZE_BITS_def
      ex_env_def Let_def page_at_def ex_cache_def empty_table_def HASH_TABLE_SIZE_def ex_page_def)

section \<open>Saving\<close>

lemma temp_path_differs:
  assumes "length (path c) < PATH_MAX - 1"
  shows "temp_path_of c \<noteq> path c"
proof
  assume "temp_path_of c = path c"
  then have "length (temp_path_of c) = length (path c)" by simp
  with assms show False by (simp add: temp_path_of_def PATH_MAX_def min_def split: if_splits)
qed

lemma temp_path_fits:
  "length (path c) + 4 < PATH_MAX \<Longrightarrow> temp_path_of c = path c @ ''.tmp''"
  by (simp add: temp_path_of_def PATH_MAX_def)

section \<open>Lookup and update through pointers\<close>

lemma first_index_less: "first_index P xs = Some i \<Longrightarrow> i < length xs"
  by (induction xs arbitrary: i) (auto split: if_splits)

lemma first_index_holds: "first_index P xs = Some i \<Longrightarrow> P (xs ! i)"
  by (induction xs arbitrary: i) (auto split: if_splits)

lemma first_index_cong_map: "map P xs = map Q ys \<Longrightarrow> first_index P xs = first_index Q ys"
proof (induction xs arbitrary: ys)
  case Nil
  then show ?case by simp
next
  case (Cons x xs)
  then obtain y ys' where ys: "ys = y # ys'" by (cases ys) auto
  with Cons show ?case by auto
qed

lemma hash_string_less: "hash_string s < HASH_TABLE_SIZE"
  by (simp add: hash_string_def HASH_TABLE_SIZE_def)

lemma find_document_valid:
  assumes "cache_find_document c d_id = Some d" and "length (table c) = HASH_TABLE_SIZE"
  shows "fst d < length (table c) \<and> snd d < length (table c ! fst d)
         \<and> fst d = hash_string d_id \<and> strcmp_eq (doc_id (doc_at c d)) d_id"
  using assms hash_string_less [of d_id]
  by (auto simp: cache_find_document_def Let_def doc_at_def dest: first_index_less first_index_holds)

lemma find_page_valid:
  "cache_find_page doc page_uuid = Some j \<Longrightarrow>
     j < length (pages doc) \<and> strcmp_eq (uuid (pages doc ! j)) page_uuid"
  by (auto simp: cache_find_page_def dest: first_index_less first_index_holds)

lemma page_at_set_page:
  "valid_ptr c p \<Longrightarrow> page_at (set_page c p pg) q = (if q = p then pg else page_at c q)"
  by (cases p; cases q) (auto simp: valid_ptr_def page_at_def set_page_def nth_list_update)

lemma nth_list_update_total:
  "xs[i := x] ! j = (if i = j \<and> i < length xs then x else xs ! j)"
  by (cases "i < length xs") (auto simp: nth_list_update list_update_beyond)

lemma valid_ptr_set_page: "valid_ptr (set_page c p pg) q = valid_ptr c q"
  by (cases p; cases q) (auto simp: valid_ptr_def set_page_def nth_list_update_total)

lemma set_page_same: "set_page c p (page_at c p) = c"
  by (cases p) (simp add: set_page_def page_at_def)

lemma set_page_fields [simp]:
  "dirty (set_page c p pg) = dirty c" "path (set_page c p pg) = path c"
  "length (table (set_page c p pg)) = length (table c)"
  by (cases p; simp add: set_page_def)+

lemma upsert_existing:
  assumes d: "cache_find_document c d_id = Some (h, i)"
    and j: "cache_find_page (doc_at c (h, i)) page_uuid = Some j"
  shows "cache_add_or_update_page c d_id page_uuid page_number mt status =
           (0, (set_page c (h, i, j)
                  ((page_at c (h, i, j))
                     \<lparr>page_num := (case page_number of
                                     Some pn \<Rightarrow> strncpy (MAX_PAGE_NUM_LEN - 1) pn
                                   | None \<Rightarrow> page_num (page_at c (h, i, j))),
                      mtime := mt, sync_status := status\<rparr>))\<lparr>dirty := True\<rparr>)"
  using d j by (simp add: cache_add_or_update_page_def Let_def split: option.splits)

section \<open>The example store\<close>

lemma ex_hash: "hash_string ex_doc_id = 43"
  by (simp add: hash_string_def ex_doc_id_def cstr_def HASH_TABLE_SIZE_def)

lemma ex_table_length: "length (table (ex_cache s r)) = HASH_TABLE_SIZE"
  by (simp add: ex_cache_def empty_table_def)

lemma ex_bucket: "table (ex_cache s r) ! 43 = [\<lparr>doc_id = ex_doc_id, pages = [ex_page s r]\<rparr>]"
  by (simp add: ex_cache_def empty_table_def HASH_TABLE_SIZE_def)

lemma ex_find_document: "cache_find_document (ex_cache s r) ex_doc_id = Some (43, 0)"
  by (simp add: cache_find_document_def ex_hash ex_bucket strcmp_eq_def)

lemma ex_doc_at: "doc_at (ex_cache s r) (43, 0) = \<lparr>doc_id = ex_doc_id, pages = [ex_page s r]\<rparr>"
  by (simp add: doc_at_def ex_bucket)

lemma ex_find_page: "cache_find_page (doc_at (ex_cache s r) (43, 0)) ex_page_uuid = Some 0"
  by (simp add: ex_doc_at cache_find_page_def ex_page_def strcmp_eq_def)

lemma ex_page_at: "page_at (ex_cache s r) (43, 0, 0) = ex_page s r"
  by (simp add: page_at_def ex_bucket)

section \<open>The frame of \<open>cache_add_or_update_page\<close>\<close>

text \<open>
  Claim C9. For a page that is already in the store (the lookups of the document and of
  the page succeed), \<open>cache_add_or_update_page\<close> succeeds and changes only that page's
  \<open>page_num\<close> (to the argument cut to \<open>MAX_PAGE_NUM_LEN - 1\<close> characters, and only when
  the argument is not a null pointer: a null \<open>page_num\<close> leaves the stored one), its
  \<open>mtime\<close> and its \<open>sync_status\<close>, and sets the dirty flag. The page's \<open>retry_count\<close>
  and id stay as they are, every other page is unchanged, and so are the chains, the
  document ids and the path.
\<close>

theorem cache_add_or_update_page_frame:
  assumes size: "length (table c) = HASH_TABLE_SIZE"
    and d: "cache_find_document c d_id = Some (h, i)"
    and j: "cache_find_page (doc_at c (h, i)) page_uuid = Some j"
  shows "\<exists>c'. cache_add_or_update_page c d_id page_uuid page_number mt status = (0, c')
           \<and> valid_ptr c (h, i, j)
           \<and> c' = (set_page c (h, i, j) (page_at c' (h, i, j)))\<lparr>dirty := True\<rparr>
           \<and> page_at c' (h, i, j) =
               (page_at c (h, i, j))
                 \<lparr>page_num := (case page_number of
                                 Some pn \<Rightarrow> strncpy (MAX_PAGE_NUM_LEN - 1) pn
                               | None \<Rightarrow> page_num (page_at c (h, i, j))),
                  mtime := mt, sync_status := status\<rparr>
           \<and> retry_count (page_at c' (h, i, j)) = retry_count (page_at c (h, i, j))
           \<and> uuid (page_at c' (h, i, j)) = uuid (page_at c (h, i, j))
           \<and> (\<forall>q. q \<noteq> (h, i, j) \<longrightarrow> page_at c' q = page_at c q)
           \<and> (\<forall>q. valid_ptr c' q = valid_ptr c q)
           \<and> map (map doc_id) (table c') = map (map doc_id) (table c)
           \<and> path c' = path c \<and> dirty c'"
proof -
  let ?p = "(h, i, j)"
  let ?pg = "(page_at c ?p)
                 \<lparr>page_num := (case page_number of
                                 Some pn \<Rightarrow> strncpy (MAX_PAGE_NUM_LEN - 1) pn
                               | None \<Rightarrow> page_num (page_at c ?p)),
                  mtime := mt, sync_status := status\<rparr>"
  let ?c' = "(set_page c ?p ?pg)\<lparr>dirty := True\<rparr>"
  have res: "cache_add_or_update_page c d_id page_uuid page_number mt status = (0, ?c')"
    using upsert_existing [OF d j, of page_number mt status] by simp
  have v: "valid_ptr c ?p"
    using find_document_valid [OF d size] find_page_valid [OF j]
    by (auto simp: valid_ptr_def doc_at_def)
  have pa: "page_at ?c' q = (if q = ?p then ?pg else page_at c q)" for q
    using page_at_set_page [OF v, of ?pg q] by (simp add: page_at_def)
  have pa_self: "page_at ?c' ?p = ?pg"
    by (simp add: pa)
  have vp: "valid_ptr ?c' q = valid_ptr c q" for q
    using valid_ptr_set_page [of c ?p ?pg q] by (simp add: valid_ptr_def)
  have ids: "map (map doc_id) (table ?c') = map (map doc_id) (table c)"
    using v by (auto simp: set_page_def valid_ptr_def list_eq_iff_nth_eq nth_list_update)
  show ?thesis
    apply (rule exI [of _ ?c'])
    apply (intro conjI)
    subgoal by (rule res)
    subgoal by (rule v)
    subgoal by (simp only: pa_self)
    subgoal by (simp add: pa)
    subgoal by (simp add: pa)
    subgoal by (simp add: pa)
    subgoal by (simp add: pa)
    subgoal using vp by blast
    subgoal by (rule ids)
    subgoal by simp
    subgoal by simp
    done
qed

theorem cache_add_or_update_page_frame_witness:
  "length (table (ex_cache SYNC_FAILED 3)) = HASH_TABLE_SIZE
   \<and> cache_find_document (ex_cache SYNC_FAILED 3) ex_doc_id = Some (43, 0)
   \<and> cache_find_page (doc_at (ex_cache SYNC_FAILED 3) (43, 0)) ex_page_uuid = Some 0
   \<and> (\<exists>c'. cache_add_or_update_page (ex_cache SYNC_FAILED 3) ex_doc_id ex_page_uuid None 200
               SYNC_PENDING = (0, c')
           \<and> page_at c' (43, 0, 0) = (ex_page SYNC_FAILED 3)\<lparr>mtime := 200, sync_status := SYNC_PENDING\<rparr>
           \<and> retry_count (page_at c' (43, 0, 0)) = 3
           \<and> (\<forall>q. q \<noteq> (43, 0, 0) \<longrightarrow> page_at c' q = page_at (ex_cache SYNC_FAILED 3) q))"
proof -
  note h = ex_table_length [of SYNC_FAILED 3] ex_find_document [of SYNC_FAILED 3]
    ex_find_page [of SYNC_FAILED 3]
  from cache_add_or_update_page_frame [OF h, of None 200 SYNC_PENDING]
  obtain c' where c':
    "cache_add_or_update_page (ex_cache SYNC_FAILED 3) ex_doc_id ex_page_uuid None 200 SYNC_PENDING = (0, c')"
    "page_at c' (43, 0, 0) =
       (page_at (ex_cache SYNC_FAILED 3) (43, 0, 0))
         \<lparr>page_num := (case None of Some pn \<Rightarrow> strncpy (MAX_PAGE_NUM_LEN - 1) pn
                       | None \<Rightarrow> page_num (page_at (ex_cache SYNC_FAILED 3) (43, 0, 0))),
          mtime := 200, sync_status := SYNC_PENDING\<rparr>"
    "retry_count (page_at c' (43, 0, 0)) = retry_count (page_at (ex_cache SYNC_FAILED 3) (43, 0, 0))"
    "\<forall>q. q \<noteq> (43, 0, 0) \<longrightarrow> page_at c' q = page_at (ex_cache SYNC_FAILED 3) q"
    by blast
  have "page_at c' (43, 0, 0) = (ex_page SYNC_FAILED 3)\<lparr>mtime := 200, sync_status := SYNC_PENDING\<rparr>"
    using c'(2) by (simp add: ex_page_at)
  moreover have "retry_count (page_at c' (43, 0, 0)) = 3"
    using c'(3) by (simp add: ex_page_at ex_page_def)
  ultimately show ?thesis using h c'(1) c'(4) by blast
qed

section \<open>Lookups depend on the ids only\<close>

lemma first_index_map: "first_index P (map f xs) = first_index (P \<circ> f) xs"
  by (induction xs) simp_all

lemma find_page_ids:
  "cache_find_page doc x = first_index (\<lambda>u. strcmp_eq u x) (snd (doc_ids doc))"
  by (simp add: cache_find_page_def doc_ids_def first_index_map comp_def)

lemma find_page_cong: "doc_ids doc' = doc_ids doc \<Longrightarrow> cache_find_page doc' x = cache_find_page doc x"
  by (simp add: find_page_ids)

lemma store_ids_nth:
  assumes "store_ids c' = store_ids c" and "h < length (table c)"
  shows "map doc_ids (table c' ! h) = map doc_ids (table c ! h)"
proof -
  from assms(1) have len: "length (table c') = length (table c)"
    unfolding store_ids_def by (rule map_eq_imp_length_eq)
  from assms have "map (map doc_ids) (table c') ! h = map (map doc_ids) (table c) ! h"
    by (simp add: store_ids_def)
  with assms(2) len show ?thesis by simp
qed

lemma store_ids_doc_at:
  assumes "store_ids c' = store_ids c" and "h < length (table c)" and "i < length (table c ! h)"
  shows "doc_ids (doc_at c' (h, i)) = doc_ids (doc_at c (h, i))"
proof -
  from store_ids_nth [OF assms(1,2)]
  have m: "map doc_ids (table c' ! h) = map doc_ids (table c ! h)" .
  then have "length (table c' ! h) = length (table c ! h)" by (rule map_eq_imp_length_eq)
  with m assms(3) have "map doc_ids (table c' ! h) ! i = map doc_ids (table c ! h) ! i" by simp
  with assms(3) \<open>length (table c' ! h) = length (table c ! h)\<close> show ?thesis
    by (simp add: doc_at_def)
qed

lemma find_document_cong:
  assumes "store_ids c' = store_ids c" and "length (table c) = HASH_TABLE_SIZE"
  shows "cache_find_document c' x = cache_find_document c x"
proof -
  have "hash_string x < length (table c)" using assms(2) hash_string_less [of x] by simp
  from store_ids_nth [OF assms(1) this]
  have "map (\<lambda>s. strcmp_eq (fst s) x) (map doc_ids (table c' ! hash_string x))
        = map (\<lambda>s. strcmp_eq (fst s) x) (map doc_ids (table c ! hash_string x))"
    by (rule arg_cong)
  then have "map (\<lambda>doc. strcmp_eq (doc_id doc) x) (table c' ! hash_string x)
        = map (\<lambda>doc. strcmp_eq (doc_id doc) x) (table c ! hash_string x)"
    by (simp add: doc_ids_def comp_def)
  then have "first_index (\<lambda>doc. strcmp_eq (doc_id doc) x) (table c' ! hash_string x)
        = first_index (\<lambda>doc. strcmp_eq (doc_id doc) x) (table c ! hash_string x)"
    by (rule first_index_cong_map)
  then show ?thesis
    by (simp add: cache_find_document_def Let_def)
qed

lemma find_cong_map:
  assumes "map g xs = map g ys"
    and "\<And>x y. g x = g y \<Longrightarrow> P x = P y"
    and "\<And>x y. g x = g y \<Longrightarrow> f x = f y"
  shows "map_option f (find P xs) = map_option f (find P ys)"
  using assms(1)
proof (induction xs arbitrary: ys)
  case Nil
  then show ?case by simp
next
  case (Cons x xs)
  then obtain y ys' where ys: "ys = y # ys'" by (cases ys) auto
  with Cons.prems have g: "g x = g y" and rest: "map g xs = map g ys'" by simp_all
  from assms(2) [OF g] assms(3) [OF g] Cons.IH [OF rest] ys show ?case by simp
qed

lemma get_document_for_page_cong:
  assumes "store_ids c' = store_ids c"
  shows "cache_get_document_for_page c' x = cache_get_document_for_page c x"
proof -
  from assms have "concat (map (map doc_ids) (table c')) = concat (map (map doc_ids) (table c))"
    by (simp add: store_ids_def)
  then have m: "map doc_ids (all_documents c') = map doc_ids (all_documents c)"
    by (simp add: all_documents_def map_concat)
  show ?thesis
    unfolding cache_get_document_for_page_def
    by (rule find_cong_map [OF m]) (auto simp: find_page_ids doc_ids_def)
qed

lemma store_ids_set_page:
  assumes "valid_ptr c p" and "uuid pg = uuid (page_at c p)"
  shows "store_ids (set_page c p pg) = store_ids c"
proof -
  obtain h i j where p: "p = (h, i, j)" by (cases p)
  from assms(1) have v: "h < length (table c)" "i < length (table c ! h)"
    "j < length (pages (table c ! h ! i))" by (simp_all add: p valid_ptr_def)
  have pages: "map uuid ((pages (table c ! h ! i))[j := pg]) = map uuid (pages (table c ! h ! i))"
    using assms(2) v(3) by (simp add: p page_at_def map_update list_update_same_conv)
  have doc: "map doc_ids ((table c ! h)[i := (table c ! h ! i)\<lparr>pages := (pages (table c ! h ! i))[j := pg]\<rparr>])
             = map doc_ids (table c ! h)"
    using v(2) pages by (simp add: map_update doc_ids_def list_update_same_conv)
  show ?thesis
    using v(1) doc by (simp add: p store_ids_def set_page_def map_update list_update_same_conv)
qed

lemma store_ids_dirty [simp]: "store_ids (c\<lparr>dirty := b\<rparr>) = store_ids c"
  by (simp add: store_ids_def)

lemma page_at_dirty [simp]: "page_at (c\<lparr>dirty := b\<rparr>) p = page_at c p"
  by (simp add: page_at_def)

lemma valid_ptr_dirty [simp]: "valid_ptr (c\<lparr>dirty := b\<rparr>) p = valid_ptr c p"
  by (simp add: valid_ptr_def)

lemma doc_at_dirty [simp]: "doc_at (c\<lparr>dirty := b\<rparr>) d = doc_at c d"
  by (simp add: doc_at_def)

lemma update_status_resolved:
  assumes "cache_find_document c d_id = Some (h, i)"
    and "cache_find_page (doc_at c (h, i)) u = Some j"
  shows "cache_update_page_status c d_id u status retries =
           (0, (set_page c (h, i, j) ((page_at c (h, i, j))\<lparr>sync_status := status, retry_count := retries\<rparr>))
                 \<lparr>dirty := True\<rparr>)"
  using assms by (simp add: cache_update_page_status_def Let_def)

lemma resolves_to_selfD:
  assumes "resolves_to_self c (h, i, j)"
  obtains d_id where "cache_get_document_for_page c (uuid (page_at c (h, i, j))) = Some d_id"
    and "cache_find_document c d_id = Some (h, i)"
    and "cache_find_page (doc_at c (h, i)) (uuid (page_at c (h, i, j))) = Some j"
  using assms by (auto simp: resolves_to_self_def split: option.splits)

lemma process_page_failure:
  assumes r: "resolves_to_self c p" and f: "delivery_fails config ext c p"
  shows "process_page config ext c p =
           (mark c p (if max_retries config \<le> uint (retry_count (page_at c p) + 1)
                      then SYNC_FAILED else SYNC_PENDING)
                     (retry_count (page_at c p) + 1), 0)"
proof -
  obtain h i j where p: "p = (h, i, j)" by (cases p)
  from r [unfolded p] obtain d_id where
    d: "cache_get_document_for_page c (uuid (page_at c (h, i, j))) = Some d_id"
    and fd: "cache_find_document c d_id = Some (h, i)"
    and fp: "cache_find_page (doc_at c (h, i)) (uuid (page_at c (h, i, j))) = Some j"
    by (rule resolves_to_selfD)
  from f d obtain info where
    rec: "reconstruct_virtual_path ext d_id (page_num (page_at c (h, i, j))) = Some info"
    and flt: "is_under_shared_path (Some (full_path info)) (Some (shared_path config))"
    and up: "upload_file ext d_id (uuid (page_at c (h, i, j))) (page_num (page_at c (h, i, j))) (full_path info) \<noteq> 0"
    by (auto simp: delivery_fails_def p Let_def split: option.splits)
  show ?thesis
    unfolding p process_page_def Let_def mark_def
    using d rec flt up by (simp add: update_status_resolved [OF fd fp])
qed

lemma mark_props:
  assumes size: "length (table c) = HASH_TABLE_SIZE" and v: "valid_ptr c p"
  shows "page_at (mark c p s n) p = (page_at c p)\<lparr>sync_status := s, retry_count := n\<rparr>"
    and "valid_ptr (mark c p s n) p"
    and "length (table (mark c p s n)) = HASH_TABLE_SIZE"
    and "resolves_to_self c p \<Longrightarrow> resolves_to_self (mark c p s n) p"
    and "delivery_fails config ext c p \<Longrightarrow> delivery_fails config ext (mark c p s n) p"
proof -
  let ?pg = "(page_at c p)\<lparr>sync_status := s, retry_count := n\<rparr>"
  have ids: "store_ids (mark c p s n) = store_ids c"
    using store_ids_set_page [OF v, of ?pg] by (simp add: mark_def)
  show pa: "page_at (mark c p s n) p = ?pg"
    using page_at_set_page [OF v, of ?pg p] by (simp add: mark_def)
  show v': "valid_ptr (mark c p s n) p"
    using v by (simp add: mark_def valid_ptr_set_page)
  show size': "length (table (mark c p s n)) = HASH_TABLE_SIZE"
    using size by (simp add: mark_def)
  have gd: "cache_get_document_for_page (mark c p s n) x = cache_get_document_for_page c x" for x
    by (rule get_document_for_page_cong [OF ids])
  have fd: "cache_find_document (mark c p s n) x = cache_find_document c x" for x
    by (rule find_document_cong [OF ids size])
  show "resolves_to_self (mark c p s n) p" if r: "resolves_to_self c p"
  proof -
    obtain h i j where p: "p = (h, i, j)" by (cases p)
    from r [unfolded p] obtain d_id where
      d: "cache_get_document_for_page c (uuid (page_at c (h, i, j))) = Some d_id"
      and fdc: "cache_find_document c d_id = Some (h, i)"
      and fp: "cache_find_page (doc_at c (h, i)) (uuid (page_at c (h, i, j))) = Some j"
      by (rule resolves_to_selfD)
    from v have "h < length (table c)" "i < length (table c ! h)" by (simp_all add: p valid_ptr_def)
    from store_ids_doc_at [OF ids this]
    have "cache_find_page (doc_at (mark c p s n) (h, i)) x = cache_find_page (doc_at c (h, i)) x" for x
      by (rule find_page_cong)
    then show ?thesis
      using d fdc fp pa [unfolded p]
      by (simp add: resolves_to_self_def gd [unfolded p] fd [unfolded p] p)
  qed
  show "delivery_fails config ext (mark c p s n) p" if "delivery_fails config ext c p"
    using that by (auto simp: delivery_fails_def pa gd Let_def split: option.splits)
qed

section \<open>Delivery failures\<close>

lemma concat_replicate_update:
  "i < n \<Longrightarrow> concat ((replicate n [])[i := xs]) = xs"
proof (induction n arbitrary: i)
  case 0
  then show ?case by simp
next
  case (Suc n)
  then show ?case by (cases i) simp_all
qed

lemma ex_all_documents:
  "all_documents (ex_cache s r) = [\<lparr>doc_id = ex_doc_id, pages = [ex_page s r]\<rparr>]"
  by (simp add: all_documents_def ex_cache_def empty_table_def HASH_TABLE_SIZE_def
      concat_replicate_update)

lemma ex_get_document_for_page:
  "cache_get_document_for_page (ex_cache s r) ex_page_uuid = Some ex_doc_id"
  by (simp add: cache_get_document_for_page_def ex_all_documents cache_find_page_def
      ex_page_def strcmp_eq_def)

lemma ex_page_sel:
  "uuid (ex_page s r) = ex_page_uuid" "sync_status (ex_page s r) = s" "retry_count (ex_page s r) = r"
  "mtime (ex_page s r) = 100" "page_num (ex_page s r) = CHR ''3'' # replicate 6 NUL"
  by (simp_all add: ex_page_def)

lemma ex_valid_ptr: "valid_ptr (ex_cache s r) (43, 0, 0)"
  by (simp add: valid_ptr_def ex_bucket ex_cache_def empty_table_def HASH_TABLE_SIZE_def)

lemma ex_resolves: "resolves_to_self (ex_cache s r) (43, 0, 0)"
  by (simp add: resolves_to_self_def ex_page_at ex_get_document_for_page ex_find_document
      ex_find_page ex_page_sel)

lemma ex_star: "is_under_shared_path (Some fp) (Some ''*'')"
  by (simp add: is_under_shared_path_cstr cstr_star)

lemma ex_delivery_fails: "delivery_fails ex_config ex_failing (ex_cache s r) (43, 0, 0)"
  by (simp add: delivery_fails_def ex_page_at ex_get_document_for_page ex_failing_def
      ex_config_def ex_star ex_page_sel)

lemma failure_step:
  assumes size: "length (table c) = HASH_TABLE_SIZE" and v: "valid_ptr c p"
    and r: "resolves_to_self c p" and f: "delivery_fails config ext c p"
  defines "n \<equiv> retry_count (page_at c p) + 1"
  defines "c' \<equiv> fst (process_page config ext c p)"
  shows "length (table c') = HASH_TABLE_SIZE \<and> valid_ptr c' p \<and> resolves_to_self c' p
         \<and> delivery_fails config ext c' p
         \<and> retry_count (page_at c' p) = n
         \<and> sync_status (page_at c' p) = (if max_retries config \<le> uint n then SYNC_FAILED else SYNC_PENDING)"
proof -
  let ?s = "if max_retries config \<le> uint n then SYNC_FAILED else SYNC_PENDING"
  have c': "c' = mark c p ?s n"
    unfolding c'_def n_def by (simp add: process_page_failure [OF r f])
  show ?thesis
    unfolding c'
    using mark_props [OF size v, where s = ?s and n = n] r f by simp
qed

lemma three_failures:
  assumes size: "length (table c) = HASH_TABLE_SIZE" and v: "valid_ptr c p"
    and r: "resolves_to_self c p" and f: "delivery_fails config ext c p"
    and rc: "retry_count (page_at c p) = 0" and mx: "max_retries config = 3"
  defines "c1 \<equiv> fst (process_page config ext c p)"
  defines "c2 \<equiv> fst (process_page config ext c1 p)"
  defines "c3 \<equiv> fst (process_page config ext c2 p)"
  shows "sync_status (page_at c1 p) = SYNC_PENDING \<and> retry_count (page_at c1 p) = 1
       \<and> delivery_fails config ext c1 p
       \<and> sync_status (page_at c2 p) = SYNC_PENDING \<and> retry_count (page_at c2 p) = 2
       \<and> delivery_fails config ext c2 p
       \<and> sync_status (page_at c3 p) = SYNC_FAILED \<and> retry_count (page_at c3 p) = 3"
proof -
  from failure_step [OF size v r f, folded c1_def]
  have 1: "length (table c1) = HASH_TABLE_SIZE" "valid_ptr c1 p" "resolves_to_self c1 p"
    "delivery_fails config ext c1 p" "retry_count (page_at c1 p) = 1"
    "sync_status (page_at c1 p) = SYNC_PENDING"
    by (simp_all add: rc mx)
  from failure_step [OF 1(1-4), folded c2_def]
  have 2: "length (table c2) = HASH_TABLE_SIZE" "valid_ptr c2 p" "resolves_to_self c2 p"
    "delivery_fails config ext c2 p" "retry_count (page_at c2 p) = 2"
    "sync_status (page_at c2 p) = SYNC_PENDING"
    by (simp_all add: 1(5) mx)
  from failure_step [OF 2(1-4), folded c3_def]
  have 3: "retry_count (page_at c3 p) = 3" "sync_status (page_at c3 p) = SYNC_FAILED"
    by (simp_all add: 2(5) mx)
  from 1 2 3 show ?thesis by simp
qed

lemma sync_status_distinct:
  "SYNC_FAILED \<noteq> SYNC_PENDING" "SYNC_UPLOADED \<noteq> SYNC_PENDING" "SYNC_SKIPPED \<noteq> SYNC_PENDING"
  by (simp_all add: SYNC_FAILED_def SYNC_PENDING_def SYNC_UPLOADED_def SYNC_SKIPPED_def)

lemma sint_100_200: "sint (100 :: 64 word) < sint (200 :: 64 word)"
  by simp

text \<open>
  On the example store, with \<open>max_retries = 3\<close> and a transport that always fails, the
  page is not PENDING after the third pass of the loop body.
\<close>

theorem third_failure_not_pending:
  "\<not> (let c1 = fst (process_page ex_config ex_failing (ex_cache SYNC_PENDING 0) (43, 0, 0));
          c2 = fst (process_page ex_config ex_failing c1 (43, 0, 0));
          c3 = fst (process_page ex_config ex_failing c2 (43, 0, 0))
      in sync_status (page_at c3 (43, 0, 0)) = SYNC_PENDING)"
proof -
  have "max_retries ex_config = 3" "retry_count (page_at (ex_cache SYNC_PENDING 0) (43, 0, 0)) = 0"
    by (simp_all add: ex_config_def ex_page_at ex_page_def)
  from three_failures [OF ex_table_length ex_valid_ptr ex_resolves ex_delivery_fails this(2,1)]
  show ?thesis by (simp add: Let_def sync_status_distinct)
qed

section \<open>The scanner and the retry count\<close>

text \<open>
  The loop body of the scanner on a page in FAILED status with \<open>retry_count\<close> 3 and
  modification time 100, whose file now has modification time 200: the page is marked
  PENDING with the new time and keeps its \<open>retry_count\<close>. The scan goes through
  \<open>cache_add_or_update_page\<close>, which leaves the count; the branch that would reset it
  through \<open>cache_update_page_status\<close> is never reached.
\<close>

theorem scan_page_keeps_retry_count:
  "let c' = fst (scan_page (ex_cache SYNC_FAILED 3) ex_doc_id ex_page_uuid ''3'' 200)
   in sync_status (page_at c' (43, 0, 0)) = SYNC_PENDING
      \<and> mtime (page_at c' (43, 0, 0)) = 200
      \<and> retry_count (page_at c' (43, 0, 0)) = 3"
proof -
  have "scan_page (ex_cache SYNC_FAILED 3) ex_doc_id ex_page_uuid ''3'' 200 =
          (snd (cache_add_or_update_page (ex_cache SYNC_FAILED 3) ex_doc_id ex_page_uuid (Some ''3'') 200
                  SYNC_PENDING), 1)"
    by (simp add: scan_page_def ex_find_document ex_find_page ex_page_at ex_page_def sint_100_200)
  then show ?thesis
    by (simp add: upsert_existing [OF ex_find_document ex_find_page]
        page_at_set_page [OF ex_valid_ptr] page_at_def [of "c\<lparr>dirty := True\<rparr>" for c] ex_page_at ex_page_def)
qed

section \<open>The record codec\<close>

lemma length_le_encode [simp]: "length (le_encode k v) = k"
  by (induction k arbitrary: v) simp_all

lemma le_decode_encode: "le_decode (le_encode k v) = v mod 256 ^ k"
proof (induction k arbitrary: v)
  case 0
  then show ?case by simp
next
  case (Suc k)
  have "v mod (256 * 256 ^ k) = 256 * (v div 256 mod 256 ^ k) + v mod 256"
    by (rule mod_mult2_eq)
  with Suc show ?case by simp
qed

lemma le_decode_encode_small: "v < 256 ^ k \<Longrightarrow> le_decode (le_encode k v) = v"
  by (simp add: le_decode_encode)

lemma fread_append: "length xs = n \<Longrightarrow> fread n (xs @ rest) = (Some xs, rest)"
  by (simp add: fread_def)

lemma fread_short: "length f < n \<Longrightarrow> fread n f = (None, [])"
  by (simp add: fread_def)

lemma word64_roundtrip: "word_of_nat (le_decode (le_encode TIME_T_SIZE (unat (m :: 64 word)))) = m"
proof -
  have "unat m < 2 ^ 64" using unsigned_less [of m, where 'a = nat] by simp
  then have "unat m < 256 ^ TIME_T_SIZE" by (simp add: TIME_T_SIZE_def)
  then show ?thesis by (simp add: le_decode_encode_small)
qed

lemma word8_roundtrip: "word_of_nat (le_decode (le_encode 1 (unat (b :: 8 word)))) = b"
proof -
  have "unat b < 2 ^ 8" using unsigned_less [of b, where 'a = nat] by simp
  then have "unat b < 256 ^ 1" by simp
  then have "le_decode (le_encode 1 (unat b)) = unat b" by (rule le_decode_encode_small)
  then show ?thesis by simp
qed

lemma strncpy_short:
  "length (cstr s) \<le> n \<Longrightarrow> strncpy n s = cstr s @ replicate (n - length (cstr s)) NUL"
  by (simp add: strncpy_def)

lemma cstr_append_NULs [simp]: "cstr (cstr s @ replicate k NUL) = cstr s"
  by (cases k) (simp_all add: cstr_def takeWhile_tail)

lemma cstr_strncpy_short: "length (cstr s) \<le> n \<Longrightarrow> cstr (strncpy n s) = cstr s"
  by (simp add: strncpy_short)

lemma length_strncpy [simp]: "length (strncpy n s) = n"
  by (simp add: strncpy_def)

lemma wf_page_num:
  assumes "wf_page page"
  shows "length (cstr (page_num page)) < MAX_PAGE_NUM_LEN"
    and "cstr (page_num page) @ replicate (MAX_PAGE_NUM_LEN - 1 - length (cstr (page_num page))) NUL
         = page_num page"
proof -
  from assms have len: "length (page_num page) = MAX_PAGE_NUM_LEN - 1"
    and pad: "page_num page = strncpy (MAX_PAGE_NUM_LEN - 1) (page_num page)"
    by (simp_all add: wf_page_def)
  have le: "length (cstr (page_num page)) \<le> MAX_PAGE_NUM_LEN - 1"
    using cstr_length_le [of "page_num page"] len by simp
  then show "length (cstr (page_num page)) < MAX_PAGE_NUM_LEN"
    by (simp add: MAX_PAGE_NUM_LEN_def)
  from strncpy_short [OF le] pad
  show "cstr (page_num page) @ replicate (MAX_PAGE_NUM_LEN - 1 - length (cstr (page_num page))) NUL
         = page_num page"
    by simp
qed

lemma read_write_page:
  assumes wf: "wf_page page"
  shows "open_read_page CACHE_VERSION (write_page page @ rest) = (Some page, rest)"
proof -
  let ?pn = "cstr (page_num page)"
  have u: "length (take UUID_LEN (uuid page)) = UUID_LEN" "take UUID_LEN (uuid page) = uuid page"
    using wf by (simp_all add: wf_page_def)
  note pn = wf_page_num [OF wf]
  have lpn: "le_decode (le_encode 1 (length ?pn)) = length ?pn"
    using pn(1) by (simp add: le_decode_encode_small MAX_PAGE_NUM_LEN_def)
  let ?r4 = "le_encode 1 (unat (sync_status page)) @ le_encode 1 (unat (retry_count page)) @ rest"
  let ?r3 = "le_encode TIME_T_SIZE (unat (mtime page)) @ ?r4"
  let ?r2 = "?pn @ ?r3"
  let ?r1 = "le_encode 1 (length ?pn) @ ?r2"
  have w: "write_page page @ rest = take UUID_LEN (uuid page) @ ?r1"
    by (simp add: write_page_def strlen_def)
  have s1: "fread UUID_LEN (take UUID_LEN (uuid page) @ ?r1) = (Some (uuid page), ?r1)"
    using fread_append [OF u(1), of ?r1] u(2) by simp
  have s2: "fread 1 ?r1 = (Some (le_encode 1 (length ?pn)), ?r2)"
    by (rule fread_append) simp
  have s3: "(if length ?pn > 0 then fread (length ?pn) ?r2 else (Some [], ?r2)) = (Some ?pn, ?r3)"
    by (simp add: fread_append)
  have s4: "fread TIME_T_SIZE ?r3 = (Some (le_encode TIME_T_SIZE (unat (mtime page))), ?r4)"
    by (rule fread_append) simp
  have s5: "fread 1 ?r4 = (Some (le_encode 1 (unat (sync_status page))),
              le_encode 1 (unat (retry_count page)) @ rest)"
    by (rule fread_append) simp
  have s6: "fread 1 (le_encode 1 (unat (retry_count page)) @ rest)
            = (Some (le_encode 1 (unat (retry_count page))), rest)"
    by (rule fread_append) simp
  have ge: "(MAX_PAGE_NUM_LEN \<le> length ?pn) = False" using pn(1) by simp
  have "open_read_page CACHE_VERSION (write_page page @ rest) =
          (Some (\<lparr>uuid = uuid page, page_num = page_num page, mtime = mtime page,
                   sync_status = 0, retry_count = 0\<rparr>
                 \<lparr>sync_status := sync_status page, retry_count := retry_count page\<rparr>), rest)"
    by (simp only: w open_read_page_def s1 prod.case option.case s2 Let_def lpn ge if_False
        s3 s4 s5 s6 refl if_True word64_roundtrip word8_roundtrip pn(2))
  then show ?thesis by simp
qed

lemma read_write_pages:
  "list_all wf_page ps \<Longrightarrow>
   open_read_pages CACHE_VERSION (length ps) (concat (map write_page ps) @ rest) = (ps, rest)"
  by (induction ps) (simp_all add: read_write_page)

lemma read_write_document:
  assumes wf: "wf_document doc"
  shows "open_read_docs CACHE_VERSION (Suc n) (write_document doc @ rest) t
         = open_read_docs CACHE_VERSION n rest (add_to_table doc t)"
proof -
  let ?r3 = "concat (map write_page (pages doc)) @ rest"
  let ?r2 = "le_encode 2 (length (pages doc) mod 2 ^ 16) @ ?r3"
  let ?r1 = "take UUID_LEN (doc_id doc) @ ?r2"
  from wf have d: "length (take UUID_LEN (doc_id doc)) = UUID_LEN" "take UUID_LEN (doc_id doc) = doc_id doc"
    and n: "length (pages doc) < 2 ^ 16" and ps: "list_all wf_page (pages doc)"
    by (simp_all add: wf_document_def)
  have w: "write_document doc @ rest = le_encode 1 UUID_LEN @ ?r1"
    by (simp add: write_document_def)
  have s1: "fread 1 (le_encode 1 UUID_LEN @ ?r1) = (Some (le_encode 1 UUID_LEN), ?r1)"
    by (rule fread_append) simp
  have l1: "le_decode (le_encode 1 UUID_LEN) = UUID_LEN"
    by (rule le_decode_encode_small) (simp add: UUID_LEN_def)
  have s2: "fread UUID_LEN ?r1 = (Some (doc_id doc), ?r2)"
    using fread_append [OF d(1), of ?r2] d(2) by simp
  have s3: "fread 2 ?r2 = (Some (le_encode 2 (length (pages doc) mod 2 ^ 16)), ?r3)"
    by (rule fread_append) simp
  have l3: "le_decode (le_encode 2 (length (pages doc) mod 2 ^ 16)) = length (pages doc)"
    using n by (simp add: le_decode_encode)
  have s4: "open_read_pages CACHE_VERSION (length (pages doc)) ?r3 = (pages doc, rest)"
    by (rule read_write_pages [OF ps])
  have rec: "\<lparr>doc_id = doc_id doc, pages = pages doc\<rparr> = doc" by simp
  show ?thesis
    by (simp only: w open_read_docs.simps s1 prod.case option.case l1 refl not_True_eq_False
        if_False s2 s3 l3 s4 rec)
qed

lemma read_write_docs:
  "list_all wf_document ds \<Longrightarrow>
   open_read_docs CACHE_VERSION (length ds + k) (concat (map write_document ds) @ rest) t
   = open_read_docs CACHE_VERSION k rest (fold add_to_table ds t)"
proof (induction ds arbitrary: t)
  case Nil
  then show ?case by simp
next
  case (Cons doc ds)
  then have wf: "wf_document doc" and rest: "list_all wf_document ds" by simp_all
  have "open_read_docs CACHE_VERSION (length (doc # ds) + k) (concat (map write_document (doc # ds)) @ rest) t
        = open_read_docs CACHE_VERSION (Suc (length ds + k)) (write_document doc @ concat (map write_document ds) @ rest) t"
    by simp
  also have "\<dots> = open_read_docs CACHE_VERSION (length ds + k) (concat (map write_document ds) @ rest) (add_to_table doc t)"
    by (rule read_write_document [OF wf])
  also have "\<dots> = open_read_docs CACHE_VERSION k rest (fold add_to_table ds (add_to_table doc t))"
    by (rule Cons.IH [OF rest])
  finally show ?case by simp
qed

lemma read_docs_fails:
  assumes "document_record_fails f"
  shows "open_read_docs version (Suc k) f t = t"
proof (cases "length f < 1")
  case True
  then show ?thesis by (simp add: fread_def)
next
  case False
  then obtain b f1 where f: "f = b # f1" by (cases f) auto
  show ?thesis
  proof (cases "le_decode [b] = UUID_LEN")
    case False
    then show ?thesis by (simp add: f fread_def)
  next
    case True
    with assms f have "length f1 < UUID_LEN + 2" by (simp add: document_record_fails_def)
    then show ?thesis using True
      by (auto simp: f fread_def split: prod.splits option.splits if_splits)
  qed
qed

lemma mset_concat_update:
  "h < length t \<Longrightarrow> mset (concat (t[h := x # t ! h])) = add_mset x (mset (concat t))"
proof (induction t arbitrary: h)
  case Nil
  then show ?case by simp
next
  case (Cons b t)
  then show ?case by (cases h) simp_all
qed

lemma length_add_to_table [simp]: "length (add_to_table doc t) = length t"
  by (simp add: add_to_table_def Let_def)

lemma mset_add_to_table:
  "length t = HASH_TABLE_SIZE \<Longrightarrow> mset (concat (add_to_table doc t)) = add_mset doc (mset (concat t))"
  using hash_string_less [of "doc_id doc"]
  by (simp add: add_to_table_def Let_def mset_concat_update)

lemma length_fold_add_to_table [simp]: "length (fold add_to_table ds t) = length t"
  by (induction ds arbitrary: t) simp_all

lemma mset_fold_add_to_table:
  "length t = HASH_TABLE_SIZE \<Longrightarrow>
   mset (concat (fold add_to_table ds t)) = mset ds + mset (concat t)"
  by (induction ds arbitrary: t) (simp_all add: mset_add_to_table)

lemma concat_empty_table [simp]: "concat empty_table = []"
  by (simp add: empty_table_def)

lemma length_empty_table [simp]: "length empty_table = HASH_TABLE_SIZE"
  by (simp add: empty_table_def)

lemma magic_roundtrip: "le_decode (le_encode 4 CACHE_MAGIC) = CACHE_MAGIC"
  by (rule le_decode_encode_small) (simp add: CACHE_MAGIC_def)

lemma cache_open_header:
  assumes f: "fs (cstr p) = Some (cache_header version n @ body)"
    and v: "version = CACHE_VERSION \<or> version = 1" and n: "n < 2 ^ 32"
  shows "cache_open fs p =
           \<lparr>table = open_read_docs version n body empty_table, dirty = False,
            path = take (PATH_MAX - 1) (cstr p)\<rparr>"
proof -
  let ?r2 = "le_encode 4 n @ body"
  let ?r1 = "le_encode 1 version @ ?r2"
  have w: "cache_header version n @ body = le_encode 4 CACHE_MAGIC @ ?r1"
    by (simp add: cache_header_def)
  have s1: "fread 4 (le_encode 4 CACHE_MAGIC @ ?r1) = (Some (le_encode 4 CACHE_MAGIC), ?r1)"
    by (rule fread_append) simp
  have s2: "fread 1 ?r1 = (Some (le_encode 1 version), ?r2)"
    by (rule fread_append) simp
  have l2: "le_decode (le_encode 1 version) = version"
    by (rule le_decode_encode_small) (use v in \<open>auto simp: CACHE_VERSION_def\<close>)
  have s3: "fread 4 ?r2 = (Some (le_encode 4 n), body)"
    by (rule fread_append) simp
  have l3: "le_decode (le_encode 4 n) = n"
    by (rule le_decode_encode_small) (use n in simp)
  have vv: "(version \<noteq> CACHE_VERSION \<and> version \<noteq> 1) = False" using v by auto
  show ?thesis
    by (simp only: cache_open_def Let_def f option.case w s1 prod.case magic_roundtrip refl
        not_True_eq_False if_False s2 l2 vv s3 l3)
       simp
qed

lemma concat_map_buckets:
  "concat (map (\<lambda>bucket. concat (map f bucket)) t) = concat (map f (concat t))"
  by (induction t) simp_all

lemma write_cache_header:
  "write_cache c = cache_header CACHE_VERSION (length (all_documents c) mod 2 ^ 32)
                   @ concat (map write_document (all_documents c)) @ []"
  by (simp add: write_cache_def cache_header_def all_documents_def concat_map_buckets)

lemma cache_open_written:
  assumes f: "fs (cstr p) = Some (write_cache c)" and wf: "wf_cache c"
  shows "table (cache_open fs p) = fold add_to_table (all_documents c) empty_table"
proof -
  from wf have n: "length (all_documents c) < 2 ^ 32" and ds: "list_all wf_document (all_documents c)"
    by (simp_all add: wf_cache_def)
  from n have m: "length (all_documents c) mod 2 ^ 32 = length (all_documents c)" by simp
  have "cache_open fs p =
           \<lparr>table = open_read_docs CACHE_VERSION (length (all_documents c))
                      (concat (map write_document (all_documents c)) @ []) empty_table,
            dirty = False, path = take (PATH_MAX - 1) (cstr p)\<rparr>"
    using cache_open_header [of fs p CACHE_VERSION "length (all_documents c)"
        "concat (map write_document (all_documents c)) @ []"] f n
    by (simp only: write_cache_header m) simp
  moreover have "open_read_docs CACHE_VERSION (length (all_documents c) + 0)
                      (concat (map write_document (all_documents c)) @ []) empty_table
                 = open_read_docs CACHE_VERSION 0 [] (fold add_to_table (all_documents c) empty_table)"
    by (rule read_write_docs [OF ds])
  ultimately show ?thesis by simp
qed

section \<open>Reloading\<close>

lemma reload_read_page_eq: "reload_read_page version f = open_read_page version f"
  by (simp add: reload_read_page_def open_read_page_def)

lemma reload_read_pages_eq: "reload_read_pages version n f = open_read_pages version n f"
  by (induction n arbitrary: f) (simp_all add: reload_read_page_eq split: prod.splits option.splits)

lemma reload_read_docs_eq: "reload_read_docs version n f t = open_read_docs version n f t"
  by (induction n arbitrary: f t) (simp_all add: reload_read_pages_eq split: prod.splits option.splits)

lemma clear_table: "length t = HASH_TABLE_SIZE \<Longrightarrow> map (\<lambda>bucket. []) t = empty_table"
  by (simp add: empty_table_def map_replicate_const)

lemma cache_reload_table:
  assumes "length (table c) = HASH_TABLE_SIZE" and "path c = cstr p"
  shows "table (snd (cache_reload fs c)) = table (cache_open fs p)"
  using assms
  by (simp add: cache_reload_def cache_open_def Let_def clear_table reload_read_docs_eq
      split: option.splits prod.splits)

lemma cache_reload_header:
  assumes f: "fs (path c) = Some (cache_header version n @ body)"
    and v: "version = CACHE_VERSION \<or> version = 1" and n: "n < 2 ^ 32"
  shows "cache_reload fs c =
           (0, c\<lparr>table := open_read_docs version n body (map (\<lambda>bucket. []) (table c)),
                 dirty := False\<rparr>)"
proof -
  let ?r2 = "le_encode 4 n @ body"
  let ?r1 = "le_encode 1 version @ ?r2"
  have w: "cache_header version n @ body = le_encode 4 CACHE_MAGIC @ ?r1"
    by (simp add: cache_header_def)
  have s1: "fread 4 (le_encode 4 CACHE_MAGIC @ ?r1) = (Some (le_encode 4 CACHE_MAGIC), ?r1)"
    by (rule fread_append) simp
  have s2: "fread 1 ?r1 = (Some (le_encode 1 version), ?r2)"
    by (rule fread_append) simp
  have l2: "le_decode (le_encode 1 version) = version"
    by (rule le_decode_encode_small) (use v in \<open>auto simp: CACHE_VERSION_def\<close>)
  have s3: "fread 4 ?r2 = (Some (le_encode 4 n), body)"
    by (rule fread_append) simp
  have l3: "le_decode (le_encode 4 n) = n"
    by (rule le_decode_encode_small) (use n in simp)
  have vv: "(version \<noteq> CACHE_VERSION \<and> version \<noteq> 1) = False" using v by auto
  show ?thesis
    by (simp only: cache_reload_def Let_def f option.case w s1 prod.case magic_roundtrip refl
        not_True_eq_False if_False s2 l2 vv s3 l3 reload_read_docs_eq)
       simp
qed

lemma cache_reload_written:
  assumes f: "fs (path c) = Some (write_cache c0)" and wf: "wf_cache c0"
    and size: "length (table c) = HASH_TABLE_SIZE"
  shows "cache_reload fs c =
           (0, c\<lparr>table := fold add_to_table (all_documents c0) empty_table, dirty := False\<rparr>)"
proof -
  from wf have n: "length (all_documents c0) < 2 ^ 32" and ds: "list_all wf_document (all_documents c0)"
    by (simp_all add: wf_cache_def)
  from n have m: "length (all_documents c0) mod 2 ^ 32 = length (all_documents c0)" by simp
  have "cache_reload fs c =
          (0, c\<lparr>table := open_read_docs CACHE_VERSION (length (all_documents c0))
                            (concat (map write_document (all_documents c0)) @ []) empty_table,
                dirty := False\<rparr>)"
    using cache_reload_header [of fs c CACHE_VERSION "length (all_documents c0)"
        "concat (map write_document (all_documents c0)) @ []"] f n
    by (simp only: write_cache_header m clear_table [OF size]) simp
  moreover have "open_read_docs CACHE_VERSION (length (all_documents c0) + 0)
                      (concat (map write_document (all_documents c0)) @ []) empty_table
                 = open_read_docs CACHE_VERSION 0 [] (fold add_to_table (all_documents c0) empty_table)"
    by (rule read_write_docs [OF ds])
  ultimately show ?thesis by simp
qed

lemma mset_decoded:
  "mset (concat (fold add_to_table ds empty_table)) = mset ds"
  by (simp add: mset_fold_add_to_table)

lemma cache_save_ok:
  assumes "dirty c" and "fopen_ok env" and "rename_ok env"
  shows "\<exists>fs'. cache_save env fs c = (0, fs', c\<lparr>dirty := False\<rparr>)
              \<and> fs' (path c) = Some (write_cache c)"
  using assms by (simp add: cache_save_def Let_def rename_file_def)

lemma ex_page_wf: "wf_page (ex_page s r)"
  by (simp add: wf_page_def ex_page_def ex_page_uuid_def UUID_LEN_def MAX_PAGE_NUM_LEN_def
      strncpy_def cstr_def)

lemma ex_document_wf: "wf_document \<lparr>doc_id = ex_doc_id, pages = [ex_page s r]\<rparr>"
  by (simp add: wf_document_def ex_page_wf ex_doc_id_def UUID_LEN_def)

lemma ex_cache_wf: "wf_cache (ex_cache s r)"
  by (simp add: wf_cache_def ex_all_documents ex_document_wf ex_table_length)

lemma ex_cache_sel: "dirty (ex_cache s r)" "path (ex_cache s r) = ''cache''"
  by (simp_all add: ex_cache_def)

text \<open>
  Claim C4, as the code has it. For every store within the limits of the record
  layout (ids filling their \<open>UUID_LEN\<close> bytes, page numbers of fewer than
  \<open>MAX_PAGE_NUM_LEN\<close> characters, fewer than \<open>2 ^ 16\<close> pages in a document and
  fewer than \<open>2 ^ 32\<close> documents, so that the counts fit their 2-byte and 4-byte
  fields; any status and retry bytes, any modification times), a completed
  \<open>cache_save\<close> leaves the encoded store at the real path, and \<open>cache_reload\<close> right
  after it succeeds and yields the same documents, each with the same pages in the same
  order carrying equal \<open>uuid\<close>, \<open>page_num\<close>, \<open>mtime\<close>, \<open>sync_status\<close> and
  \<open>retry_count\<close>, with the dirty flag clear. The load inside \<open>cache_open\<close> decodes the
  same bytes to the same documents. Documents are compared as a collection: the order
  of a bucket's chain is not part of it.
\<close>

theorem save_reload_roundtrip:
  assumes wf: "wf_cache c" and d: "dirty c" and env: "fopen_ok env" "rename_ok env"
  shows "\<exists>fs' c'. cache_save env fs c = (0, fs', c')
           \<and> fs' (path c) = Some (write_cache c)
           \<and> (\<exists>c''. cache_reload fs' c' = (0, c'')
                 \<and> mset (all_documents c'') = mset (all_documents c)
                 \<and> \<not> dirty c'' \<and> path c'' = path c)
           \<and> (\<forall>fs2 q. fs2 (cstr q) = Some (write_cache c)
                 \<longrightarrow> mset (all_documents (cache_open fs2 q)) = mset (all_documents c))"
proof -
  from cache_save_ok [OF d env] obtain fs' where
    s: "cache_save env fs c = (0, fs', c\<lparr>dirty := False\<rparr>)" and f: "fs' (path c) = Some (write_cache c)"
    by blast
  from wf have size: "length (table c) = HASH_TABLE_SIZE" by (simp add: wf_cache_def)
  have r: "cache_reload fs' (c\<lparr>dirty := False\<rparr>) =
             (0, c\<lparr>table := fold add_to_table (all_documents c) empty_table, dirty := False\<rparr>)"
    using cache_reload_written [of fs' "c\<lparr>dirty := False\<rparr>" c] f wf size by simp
  have o: "mset (all_documents (cache_open fs2 q)) = mset (all_documents c)"
    if "fs2 (cstr q) = Some (write_cache c)" for fs2 q
    using cache_open_written [of fs2 q c] that wf by (simp add: all_documents_def mset_decoded)
  show ?thesis
    apply (rule exI [of _ fs'])
    apply (rule exI [of _ "c\<lparr>dirty := False\<rparr>"])
    apply (intro conjI)
    subgoal by (rule s)
    subgoal by (rule f)
    subgoal using r by (simp add: all_documents_def mset_decoded)
    subgoal using o by blast
    done
qed

theorem save_reload_roundtrip_witness:
  "wf_cache (ex_cache SYNC_UPLOADED 0) \<and> dirty (ex_cache SYNC_UPLOADED 0)
   \<and> fopen_ok ex_env \<and> rename_ok ex_env
   \<and> (\<exists>fs' c'. cache_save ex_env (\<lambda>q. None) (ex_cache SYNC_UPLOADED 0) = (0, fs', c')
         \<and> (\<exists>c''. cache_reload fs' c' = (0, c'')
               \<and> mset (all_documents c'') = mset (all_documents (ex_cache SYNC_UPLOADED 0))
               \<and> \<not> dirty c''))"
proof -
  have h: "wf_cache (ex_cache SYNC_UPLOADED 0)" "dirty (ex_cache SYNC_UPLOADED 0)"
    "fopen_ok ex_env" "rename_ok ex_env"
    by (simp_all add: ex_cache_wf ex_cache_sel ex_env_def)
  from save_reload_roundtrip [OF h, of "\<lambda>q. None"] h show ?thesis by blast
qed

section \<open>The saved file\<close>

lemma mset_single_list: "mset xs = {#x#} \<Longrightarrow> xs = [x]"
  by (cases xs) simp_all

text \<open>
  Claim C7. \<open>cache_save\<close> returns 0 and changes nothing when the store is not dirty.
  When it is dirty, the full state is written to a temporary sibling file (\<open>path.tmp\<close>,
  cut to the \<open>PATH_MAX\<close> buffer it is built in), which is then renamed over the real
  path, and the dirty flag is cleared. The bytes written are the header (magic, format
  version 2, document count) followed by the record of every document of the store in
  scan order; for a store within the limits of the record layout they are the full
  state: \<open>cache_reload\<close> decodes them, from any file holding them and into any handle,
  to the same documents with the same pages and page fields. When the rename fails, the
  result is -1, the temporary file is removed, the store with its dirty flag still set
  is unchanged, and the file at the real path, like every file other than the temporary
  one, is as it was before. (When the temporary file cannot be opened the result is -1
  and nothing changes.) The path is shorter than \<open>PATH_MAX - 1\<close>, so that the temporary
  name is not the path itself.
\<close>

theorem cache_save_spec:
  assumes short: "length (path c) < PATH_MAX - 1"
  shows "(\<not> dirty c \<longrightarrow> cache_save env fs c = (0, fs, c))
       \<and> (dirty c \<and> \<not> fopen_ok env \<longrightarrow> cache_save env fs c = (- 1, fs, c))
       \<and> (dirty c \<and> fopen_ok env \<and> rename_ok env \<longrightarrow>
            cache_save env fs c =
              (0, (fs(path c := Some (write_cache c)))(temp_path_of c := None), c\<lparr>dirty := False\<rparr>))
       \<and> (dirty c \<and> fopen_ok env \<and> \<not> rename_ok env \<longrightarrow>
            (\<exists>fs'. cache_save env fs c = (- 1, fs', c)
                 \<and> fs' (temp_path_of c) = None
                 \<and> fs' (path c) = fs (path c)
                 \<and> (\<forall>q. q \<noteq> temp_path_of c \<longrightarrow> fs' q = fs q)))
       \<and> (length (path c) + 4 < PATH_MAX \<longrightarrow> temp_path_of c = path c @ ''.tmp'')
       \<and> write_cache c =
            cache_header CACHE_VERSION (length (all_documents c) mod 2 ^ 32)
            @ concat (map write_document (all_documents c))
       \<and> (wf_cache c \<longrightarrow>
            (\<forall>fs2 c2. fs2 (path c2) = Some (write_cache c) \<and> length (table c2) = HASH_TABLE_SIZE
               \<longrightarrow> (\<exists>c3. cache_reload fs2 c2 = (0, c3)
                      \<and> mset (all_documents c3) = mset (all_documents c)
                      \<and> \<not> dirty c3 \<and> path c3 = path c2)))"
proof -
  note ne = temp_path_differs [OF short]
  have t: "take (PATH_MAX - 1) (path c @ ''.tmp'') = temp_path_of c"
    by (simp add: temp_path_of_def)
  have save: "(\<not> dirty c \<longrightarrow> cache_save env fs c = (0, fs, c))
       \<and> (dirty c \<and> \<not> fopen_ok env \<longrightarrow> cache_save env fs c = (- 1, fs, c))
       \<and> (dirty c \<and> fopen_ok env \<and> rename_ok env \<longrightarrow>
            cache_save env fs c =
              (0, (fs(path c := Some (write_cache c)))(temp_path_of c := None), c\<lparr>dirty := False\<rparr>))
       \<and> (dirty c \<and> fopen_ok env \<and> \<not> rename_ok env \<longrightarrow>
            (\<exists>fs'. cache_save env fs c = (- 1, fs', c)
                 \<and> fs' (temp_path_of c) = None
                 \<and> fs' (path c) = fs (path c)
                 \<and> (\<forall>q. q \<noteq> temp_path_of c \<longrightarrow> fs' q = fs q)))
       \<and> (length (path c) + 4 < PATH_MAX \<longrightarrow> temp_path_of c = path c @ ''.tmp'')"
    unfolding cache_save_def Let_def t rename_file_def
    using ne temp_path_fits [of c] by (auto simp: fun_upd_twist)
  have layout: "write_cache c =
            cache_header CACHE_VERSION (length (all_documents c) mod 2 ^ 32)
            @ concat (map write_document (all_documents c))"
    by (simp add: write_cache_header)
  have decode: "\<exists>c3. cache_reload fs2 c2 = (0, c3)
                      \<and> mset (all_documents c3) = mset (all_documents c)
                      \<and> \<not> dirty c3 \<and> path c3 = path c2"
    if wf: "wf_cache c" and f: "fs2 (path c2) = Some (write_cache c)"
      and size: "length (table c2) = HASH_TABLE_SIZE" for fs2 c2
    using cache_reload_written [of fs2 c2 c] f wf size by (simp add: all_documents_def mset_decoded)
  from save layout decode show ?thesis by blast
qed

theorem cache_save_spec_witness:
  "length (path (ex_cache SYNC_PENDING 0)) < PATH_MAX - 1
   \<and> dirty (ex_cache SYNC_PENDING 0) \<and> fopen_ok (ex_env\<lparr>rename_ok := False\<rparr>)
   \<and> \<not> rename_ok (ex_env\<lparr>rename_ok := False\<rparr>)
   \<and> (\<exists>fs'. cache_save (ex_env\<lparr>rename_ok := False\<rparr>) (\<lambda>q. if q = ''cache'' then Some ''old'' else None)
               (ex_cache SYNC_PENDING 0) = (- 1, fs', ex_cache SYNC_PENDING 0)
           \<and> fs' ''cache.tmp'' = None
           \<and> fs' ''cache'' = Some ''old'')
   \<and> fopen_ok ex_env \<and> rename_ok ex_env \<and> wf_cache (ex_cache SYNC_PENDING 0)
   \<and> length (table (ex_cache SYNC_PENDING 0)) = HASH_TABLE_SIZE
   \<and> (\<exists>fs'. cache_save ex_env (\<lambda>q. if q = ''cache'' then Some ''old'' else None)
               (ex_cache SYNC_PENDING 0) = (0, fs', (ex_cache SYNC_PENDING 0)\<lparr>dirty := False\<rparr>)
           \<and> fs' ''cache.tmp'' = None
           \<and> fs' ''cache'' = Some (write_cache (ex_cache SYNC_PENDING 0))
           \<and> (\<exists>c3. cache_reload fs' (ex_cache SYNC_PENDING 0) = (0, c3)
                 \<and> all_documents c3 = [\<lparr>doc_id = ex_doc_id, pages = [ex_page SYNC_PENDING 0]\<rparr>]))"
proof -
  let ?c = "ex_cache SYNC_PENDING 0"
  let ?fs = "\<lambda>q. if q = ''cache'' then Some ''old'' else None"
  have h: "length (path ?c) < PATH_MAX - 1"
    by (simp add: ex_cache_def PATH_MAX_def)
  have d: "dirty ?c" "fopen_ok (ex_env\<lparr>rename_ok := False\<rparr>)"
    "\<not> rename_ok (ex_env\<lparr>rename_ok := False\<rparr>)" "path ?c = ''cache''"
    "temp_path_of ?c = ''cache.tmp''"
    by (simp_all add: ex_cache_def ex_env_def temp_path_of_def PATH_MAX_def)
  have e: "fopen_ok ex_env" "rename_ok ex_env" "wf_cache ?c" "length (table ?c) = HASH_TABLE_SIZE"
    by (simp_all add: ex_env_def ex_cache_wf ex_table_length)
  from cache_save_spec [OF h, of "ex_env\<lparr>rename_ok := False\<rparr>" ?fs] d
  have A: "\<exists>fs'. cache_save (ex_env\<lparr>rename_ok := False\<rparr>) ?fs ?c = (- 1, fs', ?c)
           \<and> fs' ''cache.tmp'' = None
           \<and> fs' ''cache'' = Some ''old''"
    by auto
  define fs' where "fs' = (?fs(''cache'' := Some (write_cache ?c)))(''cache.tmp'' := None)"
  from cache_save_spec [OF h, of ex_env ?fs] d e
  have s: "cache_save ex_env ?fs ?c = (0, fs', ?c\<lparr>dirty := False\<rparr>)"
    unfolding fs'_def by simp
  have f: "fs' (path ?c) = Some (write_cache ?c)" "fs' ''cache.tmp'' = None"
    by (simp_all add: fs'_def d)
  from cache_save_spec [OF h, of ex_env ?fs] e(3)
  have "\<forall>fs2 c2. fs2 (path c2) = Some (write_cache ?c) \<and> length (table c2) = HASH_TABLE_SIZE
               \<longrightarrow> (\<exists>c3. cache_reload fs2 c2 = (0, c3)
                      \<and> mset (all_documents c3) = mset (all_documents ?c)
                      \<and> \<not> dirty c3 \<and> path c3 = path c2)"
    by blast
  with f(1) e(4) obtain c3 where
    r: "cache_reload fs' ?c = (0, c3)" and m: "mset (all_documents c3) = mset (all_documents ?c)"
    by blast
  from m have "all_documents c3 = [\<lparr>doc_id = ex_doc_id, pages = [ex_page SYNC_PENDING 0]\<rparr>]"
    by (simp add: ex_all_documents mset_single_list)
  with s f r d(4) have B: "\<exists>fs'. cache_save ex_env ?fs ?c = (0, fs', ?c\<lparr>dirty := False\<rparr>)
           \<and> fs' ''cache.tmp'' = None
           \<and> fs' ''cache'' = Some (write_cache ?c)
           \<and> (\<exists>c3. cache_reload fs' ?c = (0, c3)
                 \<and> all_documents c3 = [\<lparr>doc_id = ex_doc_id, pages = [ex_page SYNC_PENDING 0]\<rparr>])"
    by auto
  from h d(1,2,3) A e B show ?thesis by blast
qed

section \<open>Loading a damaged file\<close>

lemma cache_open_header_fails:
  assumes "fs (cstr p) = Some f"
    and "length f < 9 \<or> le_decode (take 4 f) \<noteq> CACHE_MAGIC
         \<or> (le_decode (take 1 (drop 4 f)) \<noteq> CACHE_VERSION \<and> le_decode (take 1 (drop 4 f)) \<noteq> 1)"
  shows "cache_open fs p = \<lparr>table = empty_table, dirty = False, path = take (PATH_MAX - 1) (cstr p)\<rparr>"
  using assms
  by (auto simp: cache_open_def Let_def fread_def split: option.splits prod.splits if_splits)

lemma cache_open_absent:
  "fs (cstr p) = None \<Longrightarrow>
   cache_open fs p = \<lparr>table = empty_table, dirty = False, path = take (PATH_MAX - 1) (cstr p)\<rparr>"
  by (simp add: cache_open_def)

lemma store_empty_fresh: "store_empty \<lparr>table = empty_table, dirty = d, path = q\<rparr>"
  by (simp add: store_empty_def all_documents_def)

lemma cache_open_partial:
  assumes f: "fs (cstr p) = Some (cache_header CACHE_VERSION n @ concat (map write_document ds) @ bad)"
    and wf: "list_all wf_document ds" and n: "length ds < n" "n < 2 ^ 32"
    and bad: "document_record_fails bad"
  shows "table (cache_open fs p) = fold add_to_table ds empty_table"
proof -
  obtain k where k: "n = length ds + Suc k"
    using n(1) by (metis add_Suc_right less_iff_Suc_add)
  have "table (cache_open fs p)
        = open_read_docs CACHE_VERSION (length ds + Suc k) (concat (map write_document ds) @ bad) empty_table"
    using cache_open_header [of fs p CACHE_VERSION n "concat (map write_document ds) @ bad"] f n(2)
    by (simp add: k)
  also have "\<dots> = open_read_docs CACHE_VERSION (Suc k) bad (fold add_to_table ds empty_table)"
    by (rule read_write_docs [OF wf])
  also have "\<dots> = fold add_to_table ds empty_table"
    by (rule read_docs_fails [OF bad])
  finally show ?thesis .
qed

text \<open>
  Claim C2, as the code has it. \<open>cache_open\<close> never fails. It yields an empty store
  when the file is missing and when the header cannot be decoded: fewer than the nine
  header bytes (a short read of the magic, the version or the document count), a wrong
  magic, or a version other than 1 and 2; in particular for a file cut off right after
  the magic number. When the header is good and the fields of a document record
  cannot be read (a short read, or an id length other than \<open>UUID_LEN\<close>), the scan stops
  there and the store holds exactly the documents decoded before the error. What the
  load does after an error inside a page record is not stated here.
\<close>

theorem cache_open_on_errors:
  "(fs (cstr p) = None \<longrightarrow> store_empty (cache_open fs p))
   \<and> (fs (cstr p) = Some f
        \<and> (length f < 9 \<or> le_decode (take 4 f) \<noteq> CACHE_MAGIC
            \<or> (le_decode (take 1 (drop 4 f)) \<noteq> CACHE_VERSION \<and> le_decode (take 1 (drop 4 f)) \<noteq> 1))
      \<longrightarrow> store_empty (cache_open fs p))
   \<and> (fs (cstr p) = Some (le_encode 4 CACHE_MAGIC) \<longrightarrow> store_empty (cache_open fs p))
   \<and> (fs (cstr p) = Some (cache_header CACHE_VERSION n @ concat (map write_document ds) @ bad)
        \<and> list_all wf_document ds \<and> length ds < n \<and> n < 2 ^ 32 \<and> document_record_fails bad
      \<longrightarrow> mset (all_documents (cache_open fs p)) = mset ds)"
proof (intro conjI impI)
  show "store_empty (cache_open fs p)" if "fs (cstr p) = None"
    using that by (simp add: cache_open_absent store_empty_fresh)
  show "store_empty (cache_open fs p)"
    if "fs (cstr p) = Some f
        \<and> (length f < 9 \<or> le_decode (take 4 f) \<noteq> CACHE_MAGIC
            \<or> (le_decode (take 1 (drop 4 f)) \<noteq> CACHE_VERSION \<and> le_decode (take 1 (drop 4 f)) \<noteq> 1))"
    using that cache_open_header_fails [of fs p f] by (simp add: store_empty_fresh)
  show "store_empty (cache_open fs p)" if "fs (cstr p) = Some (le_encode 4 CACHE_MAGIC)"
    using that cache_open_header_fails [of fs p "le_encode 4 CACHE_MAGIC"]
    by (simp add: store_empty_fresh)
  show "mset (all_documents (cache_open fs p)) = mset ds"
    if "fs (cstr p) = Some (cache_header CACHE_VERSION n @ concat (map write_document ds) @ bad)
        \<and> list_all wf_document ds \<and> length ds < n \<and> n < 2 ^ 32 \<and> document_record_fails bad"
    using that cache_open_partial [of fs p n ds bad]
    by (simp add: all_documents_def mset_decoded)
qed

theorem cache_open_on_errors_witness:
  "(\<lambda>q. Some (le_encode 4 CACHE_MAGIC)) (cstr ''cache'') = Some (le_encode 4 CACHE_MAGIC)
   \<and> store_empty (cache_open (\<lambda>q. Some (le_encode 4 CACHE_MAGIC)) ''cache'')"
  using cache_open_on_errors [of "\<lambda>q. Some (le_encode 4 CACHE_MAGIC)" "''cache''"]
  by simp

text \<open>
  Claim C2 as stated has every decoding error end in an empty store. The file here
  announces two documents and ends after the first: the read of the second document's
  id length is short, and the store is not empty.
\<close>

theorem cache_open_keeps_decoded_documents:
  "\<not> store_empty
       (cache_open
          (\<lambda>q. Some (cache_header CACHE_VERSION 2
                      @ write_document \<lparr>doc_id = ex_doc_id, pages = [ex_page SYNC_UPLOADED 0]\<rparr>))
          ''cache'')"
proof -
  let ?doc = "\<lparr>doc_id = ex_doc_id, pages = [ex_page SYNC_UPLOADED 0]\<rparr>"
  let ?fs = "\<lambda>q::string. Some (cache_header CACHE_VERSION 2 @ write_document ?doc)"
  have "table (cache_open ?fs ''cache'') = fold add_to_table [?doc] empty_table"
    by (rule cache_open_partial [where n = 2 and bad = "[]"])
      (simp_all add: ex_document_wf document_record_fails_def)
  then have "mset (all_documents (cache_open ?fs ''cache'')) = {#?doc#}"
    by (simp only: all_documents_def mset_decoded) simp
  then show ?thesis by (auto simp: store_empty_def)
qed

section \<open>The two decode paths\<close>

lemma open_read_page_v1:
  "open_read_page 1 f = (Some page, f') \<Longrightarrow> sync_status page = SYNC_PENDING \<and> retry_count page = 0"
  by (auto simp: open_read_page_def Let_def CACHE_VERSION_def split: prod.splits option.splits if_splits)

lemma open_read_pages_v1:
  "open_read_pages 1 n f = (ps, f') \<Longrightarrow>
   \<forall>page \<in> set ps. sync_status page = SYNC_PENDING \<and> retry_count page = 0"
proof (induction n arbitrary: f ps f')
  case 0
  then show ?case by simp
next
  case (Suc n)
  show ?case
  proof (cases "open_read_page 1 f")
    case (Pair r f1)
    show ?thesis
    proof (cases r)
      case None
      with Pair Suc.prems show ?thesis by simp
    next
      case (Some page)
      obtain ps' f2 where rest: "open_read_pages 1 n f1 = (ps', f2)" by (cases "open_read_pages 1 n f1")
      with Pair Some Suc.prems have ps: "ps = page # ps'" by simp
      from Pair Some have "sync_status page = SYNC_PENDING \<and> retry_count page = 0"
        by (simp add: open_read_page_v1)
      with Suc.IH [OF rest] ps show ?thesis by simp
    qed
  qed
qed

lemma set_concat_add_to_table:
  "set (concat (add_to_table doc t)) \<subseteq> insert doc (set (concat t))"
proof (cases "hash_string (doc_id doc) < length t")
  case True
  from mset_concat_update [OF True, of doc]
  have "set_mset (mset (concat (add_to_table doc t))) = set_mset (add_mset doc (mset (concat t)))"
    by (simp add: add_to_table_def Let_def)
  then show ?thesis by simp
next
  case False
  then have "add_to_table doc t = t" by (simp add: add_to_table_def Let_def list_update_beyond)
  then show ?thesis by auto
qed

lemma open_read_docs_v1:
  assumes "\<forall>doc \<in> set (concat t). \<forall>page \<in> set (pages doc).
             sync_status page = SYNC_PENDING \<and> retry_count page = 0"
  shows "\<forall>doc \<in> set (concat (open_read_docs 1 n f t)). \<forall>page \<in> set (pages doc).
           sync_status page = SYNC_PENDING \<and> retry_count page = 0"
  using assms
proof (induction n arbitrary: f t)
  case 0
  then show ?case by simp
next
  case (Suc n)
  show ?case
  proof (cases "\<exists>l f1 d f2 np f3. fread 1 f = (Some l, f1) \<and> le_decode l = UUID_LEN
                  \<and> fread (le_decode l) f1 = (Some d, f2) \<and> fread 2 f2 = (Some np, f3)")
    case False
    then have "open_read_docs 1 (Suc n) f t = t"
      by (auto split: prod.splits option.splits)
    with Suc.prems show ?thesis by simp
  next
    case True
    then obtain l f1 d f2 np f3 where
      s: "fread 1 f = (Some l, f1)" "le_decode l = UUID_LEN"
         "fread (le_decode l) f1 = (Some d, f2)" "fread 2 f2 = (Some np, f3)" by blast
    obtain ps f4 where p: "open_read_pages 1 (le_decode np) f3 = (ps, f4)"
      by (cases "open_read_pages 1 (le_decode np) f3")
    have step: "open_read_docs 1 (Suc n) f t
                = open_read_docs 1 n f4 (add_to_table \<lparr>doc_id = d, pages = ps\<rparr> t)"
      using s p by simp
    have "\<forall>doc \<in> set (concat (add_to_table \<lparr>doc_id = d, pages = ps\<rparr> t)). \<forall>page \<in> set (pages doc).
             sync_status page = SYNC_PENDING \<and> retry_count page = 0"
      using set_concat_add_to_table [of "\<lparr>doc_id = d, pages = ps\<rparr>" t] Suc.prems
        open_read_pages_v1 [OF p] by auto
    from Suc.IH [OF this] step show ?thesis by simp
  qed
qed

lemma cache_open_v1:
  assumes "fs (cstr p) = Some (m @ CHR 0x01 # rest)" and "length m = 4"
  shows "\<forall>doc \<in> set (all_documents (cache_open fs p)). \<forall>page \<in> set (pages doc).
           sync_status page = SYNC_PENDING \<and> retry_count page = 0"
proof -
  have e: "\<forall>doc \<in> set (concat empty_table). \<forall>page \<in> set (pages doc).
             sync_status page = SYNC_PENDING \<and> retry_count page = 0" by simp
  have r1: "fread 4 (m @ CHR 0x01 # rest) = (Some m, CHR 0x01 # rest)"
    using assms(2) by (rule fread_append)
  have r2: "fread (Suc 0) (CHR 0x01 # rest) = (Some [CHR 0x01], rest)"
    by (simp add: fread_def)
  have v: "le_decode [CHR 0x01] = 1" by simp
  have "table (cache_open fs p) = empty_table
        \<or> (\<exists>n f3. table (cache_open fs p) = open_read_docs 1 n f3 empty_table)"
    by (auto simp: cache_open_def Let_def assms(1) r1 r2 v CACHE_VERSION_def
        split: prod.splits option.splits)
  then show ?thesis
  proof
    assume "table (cache_open fs p) = empty_table"
    then show ?thesis by (simp add: all_documents_def)
  next
    assume "\<exists>n f3. table (cache_open fs p) = open_read_docs 1 n f3 empty_table"
    then obtain n f3 where "table (cache_open fs p) = open_read_docs 1 n f3 empty_table" by blast
    then show ?thesis
      using open_read_docs_v1 [OF e, of n f3] by (simp only: all_documents_def)
  qed
qed

text \<open>
  Claim C5. The load inside \<open>cache_open\<close> and the load inside \<open>cache_reload\<close> build the
  same table from the same file, whatever its bytes (also when the file is missing or
  its header is bad, where \<open>cache_reload\<close> reports -1 and \<open>cache_open\<close> reports
  nothing). For a file whose version byte is 1, every page decoded by either path has
  status PENDING and \<open>retry_count\<close> 0.
\<close>

theorem decode_paths_agree:
  assumes "length (table c) = HASH_TABLE_SIZE" and "path c = cstr p"
  shows "table (snd (cache_reload fs c)) = table (cache_open fs p)
       \<and> (\<forall>m rest. fs (cstr p) = Some (m @ CHR 0x01 # rest) \<and> length m = 4 \<longrightarrow>
            (\<forall>doc \<in> set (all_documents (cache_open fs p)). \<forall>page \<in> set (pages doc).
               sync_status page = SYNC_PENDING \<and> retry_count page = 0)
          \<and> (\<forall>doc \<in> set (all_documents (snd (cache_reload fs c))). \<forall>page \<in> set (pages doc).
               sync_status page = SYNC_PENDING \<and> retry_count page = 0))"
proof -
  have t: "table (snd (cache_reload fs c)) = table (cache_open fs p)"
    using assms by (rule cache_reload_table)
  then have a: "all_documents (snd (cache_reload fs c)) = all_documents (cache_open fs p)"
    by (simp add: all_documents_def)
  show ?thesis
    unfolding a using t cache_open_v1 [of fs p] by blast
qed

lemma le_encode_2: "le_encode 2 v = [char_of (v mod 256), char_of (v div 256 mod 256)]"
  by (simp add: numeral_2_eq_2)

lemma ex_v1_body:
  "open_read_docs 1 1 (le_encode 1 UUID_LEN @ ex_doc_id @ le_encode 2 1
        @ (ex_page_uuid @ le_encode 1 1 @ ''3'' @ le_encode TIME_T_SIZE 100)) empty_table
   = add_to_table \<lparr>doc_id = ex_doc_id, pages = [ex_page SYNC_PENDING 0]\<rparr> empty_table"
  by (simp add: le_encode_2 le_decode_encode UUID_LEN_def fread_def ex_doc_id_def ex_page_uuid_def
      open_read_page_def Let_def MAX_PAGE_NUM_LEN_def TIME_T_SIZE_def CACHE_VERSION_def ex_page_def
      SYNC_PENDING_def)


lemma ex_v1_open:
  "all_documents (cache_open (\<lambda>q. Some ex_v1_file) ''cache'')
   = [\<lparr>doc_id = ex_doc_id, pages = [ex_page SYNC_PENDING 0]\<rparr>]"
proof -
  let ?body = "le_encode 1 UUID_LEN @ ex_doc_id @ le_encode 2 1
        @ (ex_page_uuid @ le_encode 1 1 @ ''3'' @ le_encode TIME_T_SIZE 100)"
  have f: "(\<lambda>q::string. Some ex_v1_file) (cstr ''cache'') = Some (cache_header 1 1 @ ?body)"
    by (simp only: ex_v1_file_def)
  have "cache_open (\<lambda>q. Some ex_v1_file) ''cache''
        = \<lparr>table = open_read_docs 1 1 ?body empty_table, dirty = False,
           path = take (PATH_MAX - 1) (cstr ''cache'')\<rparr>"
    by (rule cache_open_header [OF f]) simp_all
  then have "table (cache_open (\<lambda>q. Some ex_v1_file) ''cache'')
        = add_to_table \<lparr>doc_id = ex_doc_id, pages = [ex_page SYNC_PENDING 0]\<rparr> empty_table"
    by (simp only: ex_v1_body CacheHandle.select_convs)
  then show ?thesis
    by (simp add: all_documents_def add_to_table_def ex_hash empty_table_def HASH_TABLE_SIZE_def
        concat_replicate_update)
qed

theorem decode_paths_agree_witness:
  "length (table (ex_cache SYNC_FAILED 3)) = HASH_TABLE_SIZE
   \<and> path (ex_cache SYNC_FAILED 3) = cstr ''cache''
   \<and> ex_v1_file = le_encode 4 CACHE_MAGIC @ CHR 0x01 # drop 5 ex_v1_file
   \<and> length (le_encode 4 CACHE_MAGIC) = 4
   \<and> table (snd (cache_reload (\<lambda>q. Some ex_v1_file) (ex_cache SYNC_FAILED 3)))
       = table (cache_open (\<lambda>q. Some ex_v1_file) ''cache'')
   \<and> all_documents (cache_open (\<lambda>q. Some ex_v1_file) ''cache'')
       = [\<lparr>doc_id = ex_doc_id, pages = [ex_page SYNC_PENDING 0]\<rparr>]
   \<and> all_documents (snd (cache_reload (\<lambda>q. Some ex_v1_file) (ex_cache SYNC_FAILED 3)))
       = [\<lparr>doc_id = ex_doc_id, pages = [ex_page SYNC_PENDING 0]\<rparr>]"
proof -
  have h: "length (table (ex_cache SYNC_FAILED 3)) = HASH_TABLE_SIZE"
    "path (ex_cache SYNC_FAILED 3) = cstr ''cache''"
    by (simp_all add: ex_table_length ex_cache_sel cstr_def)
  have f: "ex_v1_file = le_encode 4 CACHE_MAGIC @ CHR 0x01 # drop 5 ex_v1_file"
    by (simp add: ex_v1_file_def cache_header_def char_of_def bit_0)
  have l: "length (le_encode 4 CACHE_MAGIC) = 4" by simp
  from decode_paths_agree [OF h, of "\<lambda>q. Some ex_v1_file"]
  have t: "table (snd (cache_reload (\<lambda>q. Some ex_v1_file) (ex_cache SYNC_FAILED 3)))
       = table (cache_open (\<lambda>q. Some ex_v1_file) ''cache'')"
    by blast
  then have "all_documents (snd (cache_reload (\<lambda>q. Some ex_v1_file) (ex_cache SYNC_FAILED 3)))
       = all_documents (cache_open (\<lambda>q. Some ex_v1_file) ''cache'')"
    by (simp add: all_documents_def)
  with h f l t ex_v1_open show ?thesis by simp
qed

section \<open>Idempotence of \<open>cache_add_or_update_page\<close>\<close>

lemma upserted_idem [simp]:
  "upserted (upserted page pn mt st) pn mt st = upserted page pn mt st"
  by (cases pn) (simp_all add: upserted_def)

lemma uuid_upserted [simp]: "uuid (upserted page pn mt st) = uuid page"
  by (simp add: upserted_def)

lemma strcmp_strncpy: "strlen s \<le> n \<Longrightarrow> strcmp_eq (strncpy n s) s"
  by (simp add: strcmp_eq_def strlen_def cstr_strncpy_short)

lemma upsert_new_page:
  assumes d: "cache_find_document c d_id = Some (h, i)"
    and j: "cache_find_page (doc_at c (h, i)) page_uuid = None"
    and v: "h < length (table c)" "i < length (table c ! h)"
  shows "cache_add_or_update_page c d_id page_uuid page_number mt status =
           (0, c\<lparr>table := (table c)[h := (table c ! h)[i :=
                   (table c ! h ! i)\<lparr>pages :=
                      upserted (zero_page\<lparr>uuid := strncpy UUID_LEN page_uuid\<rparr>) page_number mt status
                      # pages (table c ! h ! i)\<rparr>]],
                 dirty := True\<rparr>)"
  using d j v
  by (cases page_number)
    (simp_all add: cache_add_or_update_page_def Let_def doc_at_def page_at_def set_page_def upserted_def)

lemma find_document_None_doc_at:
  "cache_find_page \<lparr>doc_id = x, pages = []\<rparr> page_uuid = None"
  by (simp add: cache_find_page_def)

lemma upsert_new_document:
  assumes d: "cache_find_document c d_id = None"
    and v: "hash_string d_id < length (table c)"
  shows "cache_add_or_update_page c d_id page_uuid page_number mt status =
           (0, c\<lparr>table := (table c)[hash_string d_id :=
                   \<lparr>doc_id = strncpy UUID_LEN d_id,
                    pages = [upserted (zero_page\<lparr>uuid := strncpy UUID_LEN page_uuid\<rparr>) page_number mt status]\<rparr>
                   # table c ! hash_string d_id],
                 dirty := True\<rparr>)"
  using d v
  by (cases page_number)
    (simp_all add: cache_add_or_update_page_def Let_def doc_at_def page_at_def set_page_def
      upserted_def cache_find_page_def)

lemma upsert_existing_upserted:
  assumes d: "cache_find_document c d_id = Some (h, i)"
    and j: "cache_find_page (doc_at c (h, i)) page_uuid = Some j"
  shows "cache_add_or_update_page c d_id page_uuid page_number mt status =
           (0, (set_page c (h, i, j) (upserted (page_at c (h, i, j)) page_number mt status))\<lparr>dirty := True\<rparr>)"
  using upsert_existing [OF d j, of page_number mt status] by (simp add: upserted_def)

lemma upsert_post:
  fixes page_number :: "string option" and mt :: time_t and status :: "8 word"
  assumes size: "length (table c) = HASH_TABLE_SIZE"
    and ld: "strlen d_id \<le> UUID_LEN" and lp: "strlen page_uuid \<le> UUID_LEN"
  defines "c' \<equiv> snd (cache_add_or_update_page c d_id page_uuid page_number mt status)"
  shows "\<exists>h i j pg. cache_find_document c' d_id = Some (h, i)
           \<and> cache_find_page (doc_at c' (h, i)) page_uuid = Some j
           \<and> page_at c' (h, i, j) = upserted pg page_number mt status
           \<and> dirty c'"
proof (cases "cache_find_document c d_id")
  case None
  let ?h = "hash_string d_id"
  let ?pg = "zero_page\<lparr>uuid := strncpy UUID_LEN page_uuid\<rparr>"
  have hl: "?h < length (table c)" using size hash_string_less [of d_id] by simp
  have c': "c' = c\<lparr>table := (table c)[?h :=
                   \<lparr>doc_id = strncpy UUID_LEN d_id, pages = [upserted ?pg page_number mt status]\<rparr>
                   # table c ! ?h],
                 dirty := True\<rparr>"
    unfolding c'_def by (simp add: upsert_new_document [OF None hl])
  have b: "table c' ! ?h = \<lparr>doc_id = strncpy UUID_LEN d_id, pages = [upserted ?pg page_number mt status]\<rparr>
                   # table c ! ?h"
    using hl by (simp add: c')
  have fd: "cache_find_document c' d_id = Some (?h, 0)"
    by (simp add: cache_find_document_def b strcmp_strncpy [OF ld])
  have da: "doc_at c' (?h, 0) = \<lparr>doc_id = strncpy UUID_LEN d_id, pages = [upserted ?pg page_number mt status]\<rparr>"
    by (simp add: doc_at_def b)
  have fp: "cache_find_page (doc_at c' (?h, 0)) page_uuid = Some 0"
    by (simp add: da cache_find_page_def strcmp_strncpy [OF lp])
  have pa: "page_at c' (?h, 0, 0) = upserted ?pg page_number mt status"
    by (simp add: page_at_def b)
  have "dirty c'" by (simp add: c')
  with fd fp pa show ?thesis by blast
next
  case (Some d)
  obtain h i where d: "d = (h, i)" by (cases d)
  note fdc = Some [unfolded d]
  from find_document_valid [OF fdc size]
  have v: "h < length (table c)" "i < length (table c ! h)" and hh: "hash_string d_id = h"
    by auto
  show ?thesis
  proof (cases "cache_find_page (doc_at c (h, i)) page_uuid")
    case None
    let ?pg = "zero_page\<lparr>uuid := strncpy UUID_LEN page_uuid\<rparr>"
    let ?doc = "(table c ! h ! i)\<lparr>pages := upserted ?pg page_number mt status # pages (table c ! h ! i)\<rparr>"
    have c': "c' = c\<lparr>table := (table c)[h := (table c ! h)[i := ?doc]], dirty := True\<rparr>"
      unfolding c'_def by (simp add: upsert_new_page [OF fdc None v])
    have b: "table c' ! hash_string d_id = (table c ! hash_string d_id)[i := ?doc]"
      using v by (simp add: c' hh)
    have "map (\<lambda>doc. strcmp_eq (doc_id doc) d_id) ((table c ! hash_string d_id)[i := ?doc])
          = map (\<lambda>doc. strcmp_eq (doc_id doc) d_id) (table c ! hash_string d_id)"
      using v by (simp add: map_update list_update_same_conv hh)
    then have "first_index (\<lambda>doc. strcmp_eq (doc_id doc) d_id) ((table c ! hash_string d_id)[i := ?doc])
          = first_index (\<lambda>doc. strcmp_eq (doc_id doc) d_id) (table c ! hash_string d_id)"
      by (rule first_index_cong_map)
    then have fd: "cache_find_document c' d_id = Some (h, i)"
      using fdc by (simp add: cache_find_document_def b)
    have da: "doc_at c' (h, i) = ?doc"
      using v by (simp add: doc_at_def c')
    have fp: "cache_find_page (doc_at c' (h, i)) page_uuid = Some 0"
      by (simp add: da cache_find_page_def strcmp_strncpy [OF lp])
    have pa: "page_at c' (h, i, 0) = upserted ?pg page_number mt status"
      using v by (simp add: page_at_def c')
    have "dirty c'" by (simp add: c')
    with fd fp pa show ?thesis by blast
  next
    case (Some j)
    let ?p = "(h, i, j)"
    let ?pg = "upserted (page_at c ?p) page_number mt status"
    have c': "c' = (set_page c ?p ?pg)\<lparr>dirty := True\<rparr>"
      unfolding c'_def by (simp add: upsert_existing_upserted [OF fdc Some])
    have vp: "valid_ptr c ?p"
      using v find_page_valid [OF Some] by (simp add: valid_ptr_def doc_at_def)
    have ids: "store_ids c' = store_ids c"
      using store_ids_set_page [OF vp, of ?pg] by (simp add: c')
    have fd: "cache_find_document c' d_id = Some (h, i)"
      using find_document_cong [OF ids size] fdc by simp
    have fp: "cache_find_page (doc_at c' (h, i)) page_uuid = Some j"
      using find_page_cong [OF store_ids_doc_at [OF ids v]] Some by simp
    have pa: "page_at c' ?p = ?pg"
      using page_at_set_page [OF vp, of ?pg ?p] by (simp add: c')
    have "dirty c'" by (simp add: c')
    with fd fp pa show ?thesis by blast
  qed
qed

lemma upsert_returns_0: "fst (cache_add_or_update_page c d_id page_uuid page_number mt status) = 0"
  by (simp add: cache_add_or_update_page_def Let_def split: prod.splits option.splits)

text \<open>
  Claim C8. \<open>cache_add_or_update_page\<close> is idempotent: for every store and all
  arguments (document id and page id of at most \<open>UUID_LEN\<close> characters, as ids
  are; any page number, also a null one; any modification time and status), a second
  call with the same arguments returns the same result and leaves the store, with its
  documents, pages, page fields and dirty flag, exactly as the first call left it.
\<close>

theorem cache_add_or_update_page_idempotent:
  assumes size: "length (table c) = HASH_TABLE_SIZE"
    and ld: "strlen d_id \<le> UUID_LEN" and lp: "strlen page_uuid \<le> UUID_LEN"
  shows "cache_add_or_update_page
           (snd (cache_add_or_update_page c d_id page_uuid page_number mt status))
           d_id page_uuid page_number mt status
         = cache_add_or_update_page c d_id page_uuid page_number mt status"
proof -
  let ?c' = "snd (cache_add_or_update_page c d_id page_uuid page_number mt status)"
  from upsert_post [OF size ld lp, of page_number mt status]
  obtain h i j pg where fd: "cache_find_document ?c' d_id = Some (h, i)"
    and fp: "cache_find_page (doc_at ?c' (h, i)) page_uuid = Some j"
    and pa: "page_at ?c' (h, i, j) = upserted pg page_number mt status"
    and dirty: "dirty ?c'"
    by blast
  have "cache_add_or_update_page ?c' d_id page_uuid page_number mt status
        = (0, (set_page ?c' (h, i, j) (page_at ?c' (h, i, j)))\<lparr>dirty := True\<rparr>)"
    using upsert_existing_upserted [OF fd fp, of page_number mt status] by (simp add: pa)
  also have "\<dots> = (0, ?c')"
    using dirty by (simp add: set_page_same)
  also have "\<dots> = cache_add_or_update_page c d_id page_uuid page_number mt status"
    using upsert_returns_0 [of c d_id page_uuid page_number mt status]
    by (metis prod.collapse)
  finally show ?thesis .
qed

theorem cache_add_or_update_page_idempotent_witness:
  "length (table (ex_cache SYNC_FAILED 3)) = HASH_TABLE_SIZE
   \<and> strlen ex_doc_id \<le> UUID_LEN \<and> strlen ''22222222-2222-3333-4444-555555555555'' \<le> UUID_LEN
   \<and> cache_add_or_update_page
         (snd (cache_add_or_update_page (ex_cache SYNC_FAILED 3) ex_doc_id
                 ''22222222-2222-3333-4444-555555555555'' (Some ''4'') 200 SYNC_PENDING))
         ex_doc_id ''22222222-2222-3333-4444-555555555555'' (Some ''4'') 200 SYNC_PENDING
       = cache_add_or_update_page (ex_cache SYNC_FAILED 3) ex_doc_id
           ''22222222-2222-3333-4444-555555555555'' (Some ''4'') 200 SYNC_PENDING"
proof -
  have h: "length (table (ex_cache SYNC_FAILED 3)) = HASH_TABLE_SIZE"
    "strlen ex_doc_id \<le> UUID_LEN" "strlen ''22222222-2222-3333-4444-555555555555'' \<le> UUID_LEN"
    by (simp_all add: ex_table_length strlen_def cstr_def ex_doc_id_def UUID_LEN_def)
  from cache_add_or_update_page_idempotent [OF h] h show ?thesis by blast
qed

section \<open>A page count beyond its field\<close>

lemma read_write_document_wrapped:
  assumes id: "length (doc_id doc) = UUID_LEN" and n: "length (pages doc) mod 2 ^ 16 = 0"
  shows "open_read_docs CACHE_VERSION (Suc k) (write_document doc @ rest) t
         = open_read_docs CACHE_VERSION k (concat (map write_page (pages doc)) @ rest)
             (add_to_table \<lparr>doc_id = doc_id doc, pages = []\<rparr> t)"
proof -
  let ?r3 = "concat (map write_page (pages doc)) @ rest"
  let ?r2 = "le_encode 2 0 @ ?r3"
  let ?r1 = "take UUID_LEN (doc_id doc) @ ?r2"
  from id have d: "length (take UUID_LEN (doc_id doc)) = UUID_LEN" "take UUID_LEN (doc_id doc) = doc_id doc"
    by simp_all
  from n have n': "length (pages doc) mod 65536 = 0" by simp
  have w: "write_document doc @ rest = le_encode 1 UUID_LEN @ ?r1"
    by (simp add: write_document_def n')
  have s1: "fread 1 (le_encode 1 UUID_LEN @ ?r1) = (Some (le_encode 1 UUID_LEN), ?r1)"
    by (rule fread_append) simp
  have l1: "le_decode (le_encode 1 UUID_LEN) = UUID_LEN"
    by (rule le_decode_encode_small) (simp add: UUID_LEN_def)
  have s2: "fread UUID_LEN ?r1 = (Some (doc_id doc), ?r2)"
    using fread_append [OF d(1), of ?r2] d(2) by simp
  have s3: "fread 2 ?r2 = (Some (le_encode 2 0), ?r3)"
    by (rule fread_append) simp
  have l3: "le_decode (le_encode 2 0) = 0"
    by (simp add: le_decode_encode)
  show ?thesis
    by (simp only: w open_read_docs.simps open_read_pages.simps s1 prod.case option.case l1 refl
        not_True_eq_False if_False s2 s3 l3)
qed

lemma length_ex_many_pages: "length ex_many_pages = 2 ^ 16"
  by (simp add: ex_many_pages_def)

lemma ex_big_all_documents:
  "all_documents ex_big_cache = [\<lparr>doc_id = ex_doc_id, pages = ex_many_pages\<rparr>]"
  by (simp add: all_documents_def ex_big_cache_def empty_table_def HASH_TABLE_SIZE_def
      concat_replicate_update)

lemma ex_big_reload:
  assumes "fs ''cache'' = Some (write_cache ex_big_cache)"
  shows "all_documents (snd (cache_reload fs (ex_big_cache\<lparr>dirty := False\<rparr>)))
         = [\<lparr>doc_id = ex_doc_id, pages = []\<rparr>]"
proof -
  let ?doc = "\<lparr>doc_id = ex_doc_id, pages = ex_many_pages\<rparr>"
  have w: "write_cache ex_big_cache = cache_header CACHE_VERSION 1 @ (write_document ?doc @ [])"
    by (simp add: write_cache_header ex_big_all_documents)
  have f: "fs (path (ex_big_cache\<lparr>dirty := False\<rparr>))
           = Some (cache_header CACHE_VERSION 1 @ (write_document ?doc @ []))"
    using assms by (simp add: ex_big_cache_def w [unfolded ex_big_cache_def])
  have size: "length (table ex_big_cache) = HASH_TABLE_SIZE"
    by (simp add: ex_big_cache_def)
  have cr: "cache_reload fs (ex_big_cache\<lparr>dirty := False\<rparr>)
        = (0, (ex_big_cache\<lparr>dirty := False\<rparr>)\<lparr>table :=
                 open_read_docs CACHE_VERSION 1 (write_document ?doc @ [])
                   (map (\<lambda>bucket. []) (table (ex_big_cache\<lparr>dirty := False\<rparr>))),
               dirty := False\<rparr>)"
    using f
    by (rule cache_reload_header [where fs = fs and c = "ex_big_cache\<lparr>dirty := False\<rparr>"
          and version = CACHE_VERSION and n = 1 and body = "write_document ?doc @ []"])
      simp_all
  have "table (snd (cache_reload fs (ex_big_cache\<lparr>dirty := False\<rparr>)))
        = open_read_docs CACHE_VERSION (Suc 0) (write_document ?doc @ []) empty_table"
    by (simp del: open_read_docs.simps add: cr clear_table [OF size])
  also have "\<dots> = open_read_docs CACHE_VERSION 0 (concat (map write_page (pages ?doc)) @ [])
             (add_to_table \<lparr>doc_id = doc_id ?doc, pages = []\<rparr> empty_table)"
    by (rule read_write_document_wrapped)
      (simp_all add: length_ex_many_pages ex_doc_id_def UUID_LEN_def)
  also have "\<dots> = add_to_table \<lparr>doc_id = ex_doc_id, pages = []\<rparr> empty_table"
    by simp
  finally show ?thesis
    by (simp add: all_documents_def add_to_table_def ex_hash empty_table_def HASH_TABLE_SIZE_def
        concat_replicate_update)
qed

text \<open>
  Claim C4 as stated holds for any number of pages. The store here has one document
  of \<open>2 ^ 16\<close> pages, each within the limits of its fields. The \<open>uint16_t\<close> page
  counter of \<open>cache_save\<close> wraps to 0, and the reload after the completed save yields
  the document with no pages: the reloaded store is not the store that was saved.
\<close>

theorem page_count_wraps:
  "(case cache_save ex_env (\<lambda>q. None) ex_big_cache of
      (r, fs', c') \<Rightarrow>
        r = 0 \<and> all_documents (snd (cache_reload fs' c')) = [\<lparr>doc_id = ex_doc_id, pages = []\<rparr>]
        \<and> mset (all_documents (snd (cache_reload fs' c'))) \<noteq> mset (all_documents ex_big_cache))
   \<and> wf_page (ex_page SYNC_PENDING 0) \<and> length ex_doc_id = UUID_LEN
   \<and> all_documents ex_big_cache
       = [\<lparr>doc_id = ex_doc_id, pages = replicate (2 ^ 16) (ex_page SYNC_PENDING 0)\<rparr>]"
proof -
  have d: "dirty ex_big_cache" "fopen_ok ex_env" "rename_ok ex_env" "path ex_big_cache = ''cache''"
    by (simp_all add: ex_big_cache_def ex_env_def)
  from cache_save_ok [OF d(1-3), of "\<lambda>q. None"] obtain fs' where
    s: "cache_save ex_env (\<lambda>q. None) ex_big_cache = (0, fs', ex_big_cache\<lparr>dirty := False\<rparr>)"
    and f: "fs' ''cache'' = Some (write_cache ex_big_cache)"
    by (auto simp: d(4))
  have ne: "ex_many_pages \<noteq> []"
    using length_ex_many_pages by auto
  have r: "all_documents (snd (cache_reload fs' (ex_big_cache\<lparr>dirty := False\<rparr>)))
           = [\<lparr>doc_id = ex_doc_id, pages = []\<rparr>]"
    using f by (rule ex_big_reload)
  have "mset (all_documents (snd (cache_reload fs' (ex_big_cache\<lparr>dirty := False\<rparr>))))
        \<noteq> mset (all_documents ex_big_cache)"
    using ne by (simp add: r ex_big_all_documents)
  moreover have "length ex_doc_id = UUID_LEN" by (simp add: ex_doc_id_def UUID_LEN_def)
  ultimately show ?thesis
    by (simp add: s r ex_page_wf ex_big_all_documents ex_many_pages_def)
qed

section \<open>Whole cycles of the orchestrator\<close>




lemma find_document_dirty [simp]:
  "cache_find_document (c\<lparr>dirty := b\<rparr>) x = cache_find_document c x"
  by (simp add: cache_find_document_def)

lemma get_document_for_page_dirty [simp]:
  "cache_get_document_for_page (c\<lparr>dirty := b\<rparr>) x = cache_get_document_for_page c x"
  by (simp add: cache_get_document_for_page_def all_documents_def)

lemma resolves_dirty [simp]: "resolves_to_self (c\<lparr>dirty := b\<rparr>) p = resolves_to_self c p"
  by (simp add: resolves_to_self_def cong: option.case_cong)

lemma delivery_fails_dirty [simp]:
  "delivery_fails config ext (c\<lparr>dirty := b\<rparr>) p = delivery_fails config ext c p"
  by (simp add: delivery_fails_def cong: option.case_cong)





lemma ex_cache_eq:
  "path c = ''cache'' \<Longrightarrow> table c = table (ex_cache s r) \<Longrightarrow> c = (ex_cache s r)\<lparr>dirty := dirty c\<rparr>"
  by (cases c) (simp add: ex_cache_def)







section \<open>Consecutive failures over whole cycles\<close>

subsection \<open>Counting the elements of a list that satisfy a predicate\<close>







subsection \<open>A page id that occurs once\<close>















subsection \<open>The effect of the loop body on other pages\<close>





lemma updates_only_dirty: "updates_only c c' \<Longrightarrow> updates_only c (c'\<lparr>dirty := True\<rparr>)"
  by (simp add: updates_only_def)












subsection \<open>Stores that differ in status and retry count only\<close>




lemma write_cache_dirty [simp]: "write_cache (c\<lparr>dirty := b\<rparr>) = write_cache c"
  by (simp add: write_cache_def all_documents_def)

lemma all_ids_dirty [simp]: "all_ids (c\<lparr>dirty := b\<rparr>) = all_ids c"
  by (simp add: all_ids_def all_documents_def)

lemma wf_cache_dirty [simp]: "wf_cache (c\<lparr>dirty := b\<rparr>) = wf_cache c"
  by (simp add: wf_cache_def all_documents_def)

lemma page_by_uuid_dirty [simp]: "page_by_uuid (c\<lparr>dirty := b\<rparr>) u = page_by_uuid c u"
  by (simp add: page_by_uuid_def all_documents_def)














subsection \<open>One cycle\<close>




lemma strcmp_eq_sym: "strcmp_eq a b \<Longrightarrow> strcmp_eq b a"
  by (simp add: strcmp_eq_def)









subsection \<open>Three failing cycles\<close>







section \<open>A page id in two documents\<close>

lemma ex_shared_length: "length (table ex_shared) = HASH_TABLE_SIZE"
  by (simp add: ex_shared_def HASH_TABLE_SIZE_def)

lemma ex_shared_documents:
  "all_documents ex_shared =
     [\<lparr>doc_id = ex_doc_id, pages = [ex_page SYNC_UPLOADED 0]\<rparr>,
      \<lparr>doc_id = ex_other_doc_id, pages = [ex_page SYNC_PENDING 0]\<rparr>]"
  by (simp add: all_documents_def ex_shared_def)

lemma ex_shared_buckets:
  "table ex_shared ! 43 = [\<lparr>doc_id = ex_doc_id, pages = [ex_page SYNC_UPLOADED 0]\<rparr>]"
  "table ex_shared ! 44 = [\<lparr>doc_id = ex_other_doc_id, pages = [ex_page SYNC_PENDING 0]\<rparr>]"
  by (simp_all add: ex_shared_def nth_append)

lemma ex_shared_pages:
  "page_at ex_shared (43, 0, 0) = ex_page SYNC_UPLOADED 0"
  "page_at ex_shared (44, 0, 0) = ex_page SYNC_PENDING 0"
  by (simp_all add: page_at_def ex_shared_buckets)

lemma ex_shared_for_page:
  "cache_get_document_for_page ex_shared ex_page_uuid = Some ex_doc_id"
  by (simp add: cache_get_document_for_page_def ex_shared_documents cache_find_page_def
      ex_page_sel strcmp_eq_def)

lemma ex_shared_find:
  "cache_find_document ex_shared ex_doc_id = Some (43, 0)"
  "cache_find_page (doc_at ex_shared (43, 0)) ex_page_uuid = Some 0"
  by (simp_all add: cache_find_document_def ex_hash ex_shared_buckets strcmp_eq_def Let_def
      cache_find_page_def doc_at_def ex_page_sel)

lemma ex_shared_valid: "valid_ptr ex_shared (43, 0, 0)" "valid_ptr ex_shared (44, 0, 0)"
  by (simp_all add: valid_ptr_def ex_shared_buckets ex_shared_length HASH_TABLE_SIZE_def)

lemma ex_shared_fails: "delivery_fails ex_config ex_failing ex_shared (44, 0, 0)"
  by (simp add: delivery_fails_def ex_shared_pages ex_shared_for_page ex_failing_def
      ex_config_def ex_star ex_page_sel)

lemma ex_shared_process:
  "process_page ex_config ex_failing ex_shared (44, 0, 0) = (mark ex_shared (43, 0, 0) SYNC_PENDING 1, 0)"
  by (simp add: process_page_def Let_def ex_shared_pages ex_shared_for_page ex_failing_def
      ex_config_def ex_star ex_page_sel update_status_resolved [OF ex_shared_find] mark_def)

text \<open>
  Where a page id occurs in two documents, a delivery failure of the page in the later
  document is recorded on the page of the earlier one: \<open>cache_get_document_for_page\<close>
  returns the first document that holds a page with the id. The page whose delivery
  failed keeps its status and its retry count, so it never reaches FAILED.
\<close>

theorem shared_page_id_failure:
  "valid_ptr ex_shared (44, 0, 0)
   \<and> sync_status (page_at ex_shared (44, 0, 0)) = SYNC_PENDING
   \<and> retry_count (page_at ex_shared (44, 0, 0)) = 0
   \<and> delivery_fails ex_config ex_failing ex_shared (44, 0, 0)
   \<and> page_at (fst (process_page ex_config ex_failing ex_shared (44, 0, 0))) (44, 0, 0)
       = page_at ex_shared (44, 0, 0)
   \<and> page_at (fst (process_page ex_config ex_failing ex_shared (44, 0, 0))) (43, 0, 0)
       = (page_at ex_shared (43, 0, 0))\<lparr>sync_status := SYNC_PENDING, retry_count := 1\<rparr>
   \<and> \<not> resolves_to_self ex_shared (44, 0, 0)
   \<and> \<not> unique_ids (all_ids ex_shared) ex_page_uuid"
proof -
  have a: "page_at (mark ex_shared (43, 0, 0) SYNC_PENDING 1) q
           = (if q = (43, 0, 0) then (page_at ex_shared (43, 0, 0))\<lparr>sync_status := SYNC_PENDING, retry_count := 1\<rparr>
              else page_at ex_shared q)" for q
    using page_at_set_page [OF ex_shared_valid(1)] by (simp add: mark_def)
  have r: "\<not> resolves_to_self ex_shared (44, 0, 0)"
    by (simp add: resolves_to_self_def ex_shared_pages ex_page_sel ex_shared_for_page ex_shared_find)
  have u: "\<not> unique_ids (all_ids ex_shared) ex_page_uuid"
    by (simp add: unique_ids_def all_ids_def ex_shared_documents doc_ids_def ex_page_sel strcmp_eq_def)
  show ?thesis
    using ex_shared_valid(2) ex_shared_fails r u
    by (simp add: ex_shared_process a ex_shared_pages ex_page_sel)
qed

section \<open>A scan of the document's directory\<close>

lemma ex_rm_page_uuid: "rm_page_uuid (ex_page_uuid @ ''.rm'') = Some ex_page_uuid"
  by (simp add: rm_page_uuid_def ex_page_uuid_def cstr_def Let_def strcmp_eq_def UUID_LEN_def
      strncpy_def)

lemma ex_scan_page:
  "scan_page (ex_cache SYNC_FAILED 3) ex_doc_id ex_page_uuid ''3'' 200 =
     (snd (cache_add_or_update_page (ex_cache SYNC_FAILED 3) ex_doc_id ex_page_uuid (Some ''3'') 200
             SYNC_PENDING), 1)"
  by (simp add: scan_page_def ex_find_document ex_find_page ex_page_at ex_page_def sint_100_200)

lemma ex_upsert_pending:
  "snd (cache_add_or_update_page (ex_cache SYNC_FAILED 3) ex_doc_id ex_page_uuid (Some ''3'') 200
          SYNC_PENDING)
   = (ex_cache SYNC_PENDING 3)\<lparr>table := empty_table[43 :=
        [\<lparr>doc_id = ex_doc_id, pages = [(ex_page SYNC_PENDING 3)\<lparr>mtime := 200\<rparr>]\<rparr>]]\<rparr>"
  by (simp only: upsert_existing [OF ex_find_document ex_find_page] snd_conv)
    (simp add: set_page_def page_at_def ex_cache_def empty_table_def HASH_TABLE_SIZE_def
      ex_page_def MAX_PAGE_NUM_LEN_def strncpy_def cstr_def)

text \<open>
  Claim C3 at a failing input, through \<open>scan_document_pages\<close>. The store holds a page
  in FAILED status with \<open>retry_count\<close> 3 and modification time 100; the document's
  directory holds the page's file with modification time 200. After the scan the page
  is PENDING with modification time 200 and the store is dirty, one page is counted as
  updated, and the page's \<open>retry_count\<close> is 3 as before, where the claim has it reset
  to 0.
\<close>

theorem scan_keeps_retry_count:
  "scan_document_pages (\<lambda>d_id page_uuid. ''3'')
     (Some [\<lparr>d_name = ex_page_uuid @ ''.rm'', st_mtime = Some 200\<rparr>]) ex_doc_id
     (ex_cache SYNC_FAILED 3)
   = (\<lparr>table = empty_table[43 :=
         [\<lparr>doc_id = ex_doc_id,
           pages = [\<lparr>uuid = ex_page_uuid, page_num = CHR ''3'' # replicate 6 NUL, mtime = 200,
                     sync_status = SYNC_PENDING, retry_count = 3\<rparr>]\<rparr>]],
       dirty = True, path = ''cache''\<rparr>, 1)"
  by (simp add: scan_document_pages_def ex_rm_page_uuid ex_scan_page ex_upsert_pending)
    (simp add: ex_cache_def ex_page_def)

end
